theory Spec2Isabelle
  imports Main "HOL-Library.Word"
begin

unbundle bit_operations_syntax

section \<open>The CBOR codec of os/lib/cbor.c\<close>

text \<open>
  The development follows \<^verbatim>\<open>os/lib/cbor.h\<close> and \<^verbatim>\<open>os/lib/cbor.c\<close> function by
  function. Conventions of the embedding:
  \<^item> \<^verbatim>\<open>uint8_t\<close> and \<^verbatim>\<open>uint64_t\<close> are words of 8 and 64 bits; \<^verbatim>\<open>size_t\<close> is the
    64-bit unsigned type of the native platform on which the test
    \<^verbatim>\<open>tests/08-native-runs/16-cbor\<close> is run.
  \<^item> The C enumerations (\<^verbatim>\<open>cbor_major_type_t\<close>, \<^verbatim>\<open>cbor_simple_value_t\<close>,
    \<^verbatim>\<open>cbor_size_t\<close>) are integers in C and the functions return values that are
    not among the named enumerators, so they are modelled as \<open>int\<close> constants.
  \<^item> Memory is a flat store from addresses to bytes. A pointer is an address or
    \<^verbatim>\<open>NULL\<close> (\<open>None\<close>). Arithmetic on \<^verbatim>\<open>NULL\<close> and stores through
    \<^verbatim>\<open>NULL\<close> are undefined in C; the model leaves pointer and store unchanged there.
  \<^item> The array \<^verbatim>\<open>objects[CBOR_MAX_NESTING]\<close> is the map from an index to the counter
    stored there; the code indexes it with \<^verbatim>\<open>nesting_depth\<close> only.
  \<^item> The C functions mutate \<^verbatim>\<open>*state\<close> and the buffer it points to; the model
    passes a record that holds the fields of the C structure together with the store.
  \<^item> Of the two variants selected by \<^verbatim>\<open>__BIG_ENDIAN__\<close> the model follows the
    one compiled when the macro is not defined (the byte-wise loops), which is the
    variant of the native and nRF52840 builds.
\<close>

type_synonym uint8_t = "8 word"
type_synonym uint64_t = "64 word"
type_synonym size_t = "64 word"
type_synonym addr = nat
type_synonym pointer = "addr option"
type_synonym store = "addr \<Rightarrow> uint8_t"

subsection \<open>Constants and macros of cbor.h\<close>

definition CBOR_MAX_NESTING :: size_t where
  "CBOR_MAX_NESTING = 8"

definition SIZE_MAX :: uint64_t where
  "SIZE_MAX = 0xFFFFFFFFFFFFFFFF"

definition UINT8_MAX :: uint64_t where
  "UINT8_MAX = 0xFF"

definition UINT16_MAX :: uint64_t where
  "UINT16_MAX = 0xFFFF"

definition UINT32_MAX :: uint64_t where
  "UINT32_MAX = 0xFFFFFFFF"

type_synonym cbor_major_type_t = int

definition CBOR_MAJOR_TYPE_NONE :: cbor_major_type_t where
  "CBOR_MAJOR_TYPE_NONE = - 1"

definition CBOR_MAJOR_TYPE_UNSIGNED :: cbor_major_type_t where
  "CBOR_MAJOR_TYPE_UNSIGNED = 0x00"

definition CBOR_MAJOR_TYPE_BYTE_STRING :: cbor_major_type_t where
  "CBOR_MAJOR_TYPE_BYTE_STRING = 0x40"

definition CBOR_MAJOR_TYPE_TEXT_STRING :: cbor_major_type_t where
  "CBOR_MAJOR_TYPE_TEXT_STRING = 0x60"

definition CBOR_MAJOR_TYPE_ARRAY :: cbor_major_type_t where
  "CBOR_MAJOR_TYPE_ARRAY = 0x80"

definition CBOR_MAJOR_TYPE_MAP :: cbor_major_type_t where
  "CBOR_MAJOR_TYPE_MAP = 0xA0"

definition CBOR_MAJOR_TYPE_SIMPLE :: cbor_major_type_t where
  "CBOR_MAJOR_TYPE_SIMPLE = 0xE0"

type_synonym cbor_simple_value_t = int

definition CBOR_SIMPLE_VALUE_NONE :: cbor_simple_value_t where
  "CBOR_SIMPLE_VALUE_NONE = - 1"

definition CBOR_SIMPLE_VALUE_FALSE :: cbor_simple_value_t where
  "CBOR_SIMPLE_VALUE_FALSE = 0xF4"

definition CBOR_SIMPLE_VALUE_TRUE :: cbor_simple_value_t where
  "CBOR_SIMPLE_VALUE_TRUE = 0xF5"

definition CBOR_SIMPLE_VALUE_NULL :: cbor_simple_value_t where
  "CBOR_SIMPLE_VALUE_NULL = 0xF6"

definition CBOR_SIMPLE_VALUE_UNDEFINED :: cbor_simple_value_t where
  "CBOR_SIMPLE_VALUE_UNDEFINED = 0xF7"

type_synonym cbor_size_t = int

definition CBOR_SIZE_NONE :: cbor_size_t where
  "CBOR_SIZE_NONE = - 1"

definition CBOR_SIZE_1 :: cbor_size_t where
  "CBOR_SIZE_1 = 0x18"

definition CBOR_SIZE_2 :: cbor_size_t where
  "CBOR_SIZE_2 = 0x19"

definition CBOR_SIZE_4 :: cbor_size_t where
  "CBOR_SIZE_4 = 0x1A"

definition CBOR_SIZE_8 :: cbor_size_t where
  "CBOR_SIZE_8 = 0x1B"

text \<open>The macros \<^verbatim>\<open>CBOR_UNSIGNED_SIZE\<close> and \<^verbatim>\<open>CBOR_BYTE_STRING_SIZE\<close>; the sum of
  the latter is computed in \<^verbatim>\<open>size_t\<close> and wraps around.\<close>

definition CBOR_UNSIGNED_SIZE :: "uint64_t \<Rightarrow> size_t" where
  "CBOR_UNSIGNED_SIZE u =
     (if u < word_of_int CBOR_SIZE_1 then 1
      else if u \<le> UINT8_MAX then 1 + 1
      else if u \<le> UINT16_MAX then 1 + 2
      else if u \<le> UINT32_MAX then 1 + 4
      else 1 + 8)"

definition CBOR_BYTE_STRING_SIZE :: "size_t \<Rightarrow> size_t" where
  "CBOR_BYTE_STRING_SIZE bytes = CBOR_UNSIGNED_SIZE bytes + bytes"

subsection \<open>Pointers and the store\<close>

fun ptr_sub :: "pointer \<Rightarrow> nat \<Rightarrow> pointer" where
  "ptr_sub None n = None"
| "ptr_sub (Some p) n = Some (p - n)"

fun poke :: "store \<Rightarrow> pointer \<Rightarrow> uint8_t \<Rightarrow> store" where
  "poke m None b = m"
| "poke m (Some p) b = m(p := b)"

fun peek :: "store \<Rightarrow> pointer \<Rightarrow> uint8_t" where
  "peek m None = 0"
| "peek m (Some p) = m p"

text \<open>\<^verbatim>\<open>memcpy(dst, src, n)\<close>, the source given as the list of its \<open>n\<close> bytes.\<close>

fun memcpy :: "store \<Rightarrow> pointer \<Rightarrow> uint8_t list \<Rightarrow> store" where
  "memcpy m None bs = m"
| "memcpy m (Some p) [] = m"
| "memcpy m (Some p) (b # bs) = memcpy (m(p := b)) (Some (Suc p)) bs"

subsection \<open>Writer\<close>

record cbor_writer_state_t =
  buffer :: pointer
  buffer_size :: size_t
  nesting_depth :: size_t
  objects :: "nat \<Rightarrow> size_t"

record writer = cbor_writer_state_t +
  mem :: store

text \<open>\<^verbatim>\<open>cbor_init_writer\<close> sets three fields and leaves \<^verbatim>\<open>objects\<close> as it finds it.
  The buffer argument is the address of a caller-owned array.\<close>

definition cbor_init_writer :: "writer \<Rightarrow> addr \<Rightarrow> size_t \<Rightarrow> writer" where
  "cbor_init_writer state buf buf_size =
     state\<lparr>buffer := Some (buf + unat buf_size),
           buffer_size := buf_size,
           nesting_depth := CBOR_MAX_NESTING\<rparr>"

definition cbor_stop_writer :: "writer \<Rightarrow> pointer" where
  "cbor_stop_writer state =
     (if nesting_depth state = CBOR_MAX_NESTING then buffer state else None)"

definition increment :: "writer \<Rightarrow> writer" where
  "increment state =
     (if nesting_depth state = CBOR_MAX_NESTING then state
      else state\<lparr>objects := (objects state)
              (unat (nesting_depth state) := objects state (unat (nesting_depth state)) + 1)\<rparr>)"

text \<open>The object is passed as its bytes; \<open>object_size\<close> of them are copied.\<close>

definition prepend_object :: "writer \<Rightarrow> uint8_t list \<Rightarrow> size_t \<Rightarrow> writer" where
  "prepend_object state object object_size =
     (if object_size = 0 then state
      else if buffer_size state < object_size
      then state\<lparr>buffer := None, buffer_size := 0\<rparr>
      else state\<lparr>buffer := ptr_sub (buffer state) (unat object_size),
                 buffer_size := buffer_size state - object_size,
                 mem := memcpy (mem state) (ptr_sub (buffer state) (unat object_size))
                          (take (unat object_size) object)\<rparr>)"

definition cbor_prepend_object :: "writer \<Rightarrow> uint8_t list \<Rightarrow> size_t \<Rightarrow> writer" where
  "cbor_prepend_object state object object_size =
     increment (prepend_object state object object_size)"

text \<open>The first part of \<^verbatim>\<open>prepend_unsigned\<close> (``determine size'').\<close>

definition length_to_copy :: "uint64_t \<Rightarrow> size_t" where
  "length_to_copy val =
     (if val < word_of_int CBOR_SIZE_1 then 0
      else if val \<le> UINT8_MAX then 1
      else if val \<le> UINT16_MAX then 2
      else if val \<le> UINT32_MAX then 4
      else 8)"

definition jump_byte :: "uint64_t \<Rightarrow> uint8_t" where
  "jump_byte val =
     (if val < word_of_int CBOR_SIZE_1 then ucast val
      else if val \<le> UINT8_MAX then word_of_int CBOR_SIZE_1
      else if val \<le> UINT16_MAX then word_of_int CBOR_SIZE_2
      else if val \<le> UINT32_MAX then word_of_int CBOR_SIZE_4
      else word_of_int CBOR_SIZE_8)"

text \<open>The loop \<^verbatim>\<open>while(length_to_copy--) { state->buffer--; *state->buffer = value;
  value >>= 8; }\<close>.\<close>

fun write_argument :: "nat \<Rightarrow> uint64_t \<Rightarrow> writer \<Rightarrow> writer" where
  "write_argument 0 val state = state"
| "write_argument (Suc n) val state =
     write_argument n (drop_bit 8 val)
       (state\<lparr>buffer := ptr_sub (buffer state) 1,
              mem := poke (mem state) (ptr_sub (buffer state) 1) (ucast val)\<rparr>)"

definition prepend_unsigned :: "writer \<Rightarrow> uint64_t \<Rightarrow> writer" where
  "prepend_unsigned state val =
     (if buffer_size state \<le> length_to_copy val
      then state\<lparr>buffer := None, buffer_size := 0\<rparr>
      else
        let s1 = write_argument (unat (length_to_copy val)) val
                   (state\<lparr>buffer_size := buffer_size state - length_to_copy val\<rparr>)
        in s1\<lparr>buffer := ptr_sub (buffer s1) 1,
              buffer_size := buffer_size s1 - 1,
              mem := poke (mem s1) (ptr_sub (buffer s1) 1) (jump_byte val)\<rparr>)"

definition cbor_prepend_unsigned :: "writer \<Rightarrow> uint64_t \<Rightarrow> writer" where
  "cbor_prepend_unsigned state val = increment (prepend_unsigned state val)"

text \<open>\<^verbatim>\<open>*state->buffer |= major_type\<close>.\<close>

definition or_major_type :: "writer \<Rightarrow> cbor_major_type_t \<Rightarrow> writer" where
  "or_major_type state t =
     state\<lparr>mem := poke (mem state) (buffer state)
                     (peek (mem state) (buffer state) OR word_of_int t)\<rparr>"

definition cbor_wrap_data :: "writer \<Rightarrow> size_t \<Rightarrow> writer" where
  "cbor_wrap_data state data_size =
     (let s1 = cbor_prepend_unsigned state data_size
      in if buffer s1 = None then s1
         else or_major_type s1 CBOR_MAJOR_TYPE_BYTE_STRING)"

definition cbor_prepend_data :: "writer \<Rightarrow> uint8_t list \<Rightarrow> size_t \<Rightarrow> writer" where
  "cbor_prepend_data state data data_size =
     cbor_wrap_data (prepend_object state data data_size) data_size"

definition cbor_prepend_text :: "writer \<Rightarrow> uint8_t list \<Rightarrow> size_t \<Rightarrow> writer" where
  "cbor_prepend_text state text text_size =
     (let s1 = cbor_prepend_unsigned (prepend_object state text text_size) text_size
      in if buffer s1 = None then s1
         else or_major_type s1 CBOR_MAJOR_TYPE_TEXT_STRING)"

text \<open>The functions that return a pointer return it together with the new state.\<close>

definition cbor_open_array :: "writer \<Rightarrow> pointer \<times> writer" where
  "cbor_open_array state =
     (if nesting_depth state = 0
      then (None, state\<lparr>buffer := None, buffer_size := 0\<rparr>)
      else (buffer state,
            state\<lparr>nesting_depth := nesting_depth state - 1,
                  objects := (objects state)(unat (nesting_depth state - 1) := 0)\<rparr>))"

text \<open>The tail shared by \<^verbatim>\<open>cbor_wrap_array\<close> and \<^verbatim>\<open>cbor_wrap_map\<close>: after the
  header is in place, \<^verbatim>\<open>++state->nesting_depth\<close> and the count of the enclosing
  container.\<close>

definition close_container :: "writer \<Rightarrow> writer" where
  "close_container state =
     (let s1 = state\<lparr>nesting_depth := nesting_depth state + 1\<rparr>
      in if nesting_depth s1 \<noteq> CBOR_MAX_NESTING
         then s1\<lparr>objects := (objects s1)
                 (unat (nesting_depth s1) := objects s1 (unat (nesting_depth s1)) + 1)\<rparr>
         else s1)"

definition cbor_wrap_array :: "writer \<Rightarrow> pointer \<times> writer" where
  "cbor_wrap_array state =
     (if nesting_depth state = CBOR_MAX_NESTING
      then (None, state\<lparr>buffer := None, buffer_size := 0\<rparr>)
      else
        let s1 = prepend_unsigned state (objects state (unat (nesting_depth state)))
        in if buffer s1 = None then (None, s1)
           else
             let s2 = close_container (or_major_type s1 CBOR_MAJOR_TYPE_ARRAY)
             in (buffer s2, s2))"

definition cbor_open_map :: "writer \<Rightarrow> pointer \<times> writer" where
  "cbor_open_map state = cbor_open_array state"

definition cbor_wrap_map :: "writer \<Rightarrow> pointer \<times> writer" where
  "cbor_wrap_map state =
     (if nesting_depth state = CBOR_MAX_NESTING
         \<or> objects state (unat (nesting_depth state)) AND 1 \<noteq> 0
      then (None, state\<lparr>buffer := None, buffer_size := 0\<rparr>)
      else
        let s1 = prepend_unsigned state
                   (drop_bit 1 (objects state (unat (nesting_depth state))))
        in if buffer s1 = None then (None, s1)
           else
             let s2 = close_container (or_major_type s1 CBOR_MAJOR_TYPE_MAP)
             in (buffer s2, s2))"

definition prepend_simple :: "writer \<Rightarrow> cbor_simple_value_t \<Rightarrow> writer" where
  "prepend_simple state v =
     (if buffer_size state = 0 then state\<lparr>buffer := None\<rparr>
      else increment
             (state\<lparr>buffer := ptr_sub (buffer state) 1,
                    buffer_size := buffer_size state - 1,
                    mem := poke (mem state) (ptr_sub (buffer state) 1) (word_of_int v)\<rparr>))"

definition cbor_prepend_null :: "writer \<Rightarrow> writer" where
  "cbor_prepend_null state = prepend_simple state CBOR_SIMPLE_VALUE_NULL"

definition cbor_prepend_undefined :: "writer \<Rightarrow> writer" where
  "cbor_prepend_undefined state = prepend_simple state CBOR_SIMPLE_VALUE_UNDEFINED"

definition cbor_prepend_bool :: "writer \<Rightarrow> int \<Rightarrow> writer" where
  "cbor_prepend_bool state boolean =
     prepend_simple state
       (if boolean \<noteq> 0 then CBOR_SIMPLE_VALUE_TRUE else CBOR_SIMPLE_VALUE_FALSE)"

subsection \<open>Writer sessions\<close>

text \<open>A call of the writer interface with its arguments, and the effect of a
  sequence of calls on the state (returned pointers are dropped).\<close>

datatype writer_call =
    Prepend_unsigned uint64_t
  | Prepend_data "uint8_t list" size_t
  | Prepend_text "uint8_t list" size_t
  | Prepend_object "uint8_t list" size_t
  | Wrap_data size_t
  | Open_array
  | Open_map
  | Wrap_array
  | Wrap_map
  | Prepend_null
  | Prepend_undefined
  | Prepend_bool int

fun call :: "writer_call \<Rightarrow> writer \<Rightarrow> writer" where
  "call (Prepend_unsigned v) state = cbor_prepend_unsigned state v"
| "call (Prepend_data d n) state = cbor_prepend_data state d n"
| "call (Prepend_text t n) state = cbor_prepend_text state t n"
| "call (Prepend_object ob n) state = cbor_prepend_object state ob n"
| "call (Wrap_data n) state = cbor_wrap_data state n"
| "call Open_array state = snd (cbor_open_array state)"
| "call Open_map state = snd (cbor_open_map state)"
| "call Wrap_array state = snd (cbor_wrap_array state)"
| "call Wrap_map state = snd (cbor_wrap_map state)"
| "call Prepend_null state = cbor_prepend_null state"
| "call Prepend_undefined state = cbor_prepend_undefined state"
| "call (Prepend_bool b) state = cbor_prepend_bool state b"

fun calls :: "writer_call list \<Rightarrow> writer \<Rightarrow> writer" where
  "calls [] state = state"
| "calls (c # cs) state = calls cs (call c state)"

subsection \<open>Reader\<close>

record cbor_reader_state_t =
  cbor :: addr
  cbor_size :: size_t

record reader = cbor_reader_state_t +
  input :: store

definition cbor_init_reader :: "reader \<Rightarrow> addr \<Rightarrow> size_t \<Rightarrow> reader" where
  "cbor_init_reader state c c_size = state\<lparr>cbor := c, cbor_size := c_size\<rparr>"

text \<open>A reader initialised on \<open>c_size\<close> bytes at address \<open>c\<close> of a store.\<close>

definition reader_on :: "store \<Rightarrow> addr \<Rightarrow> size_t \<Rightarrow> reader" where
  "reader_on m c c_size =
     cbor_init_reader \<lparr>cbor = 0, cbor_size = 0, input = m\<rparr> c c_size"

text \<open>\<^verbatim>\<open>cbor_read_next\<close> returns \<^verbatim>\<open>*state->cbor & 0xE0\<close> converted to the
  enumeration type; the state it is handed is returned with it.\<close>

definition cbor_read_next :: "reader \<Rightarrow> cbor_major_type_t \<times> reader" where
  "cbor_read_next state =
     (if cbor_size state = 0 then (CBOR_MAJOR_TYPE_NONE, state)
      else (uint (input state (cbor state)) AND 0xE0, state))"

definition cbor_stop_reader :: "reader \<Rightarrow> addr" where
  "cbor_stop_reader state = cbor state"

text \<open>The \<^verbatim>\<open>switch\<close> of \<^verbatim>\<open>cbor_read_unsigned\<close>; \<open>None\<close> is its \<^verbatim>\<open>default\<close> branch.\<close>

definition bytes_to_read :: "cbor_size_t \<Rightarrow> size_t option" where
  "bytes_to_read sz =
     (if sz = CBOR_SIZE_1 then Some 1
      else if sz = CBOR_SIZE_2 then Some 2
      else if sz = CBOR_SIZE_4 then Some 4
      else if sz = CBOR_SIZE_8 then Some 8
      else None)"

text \<open>The loop \<^verbatim>\<open>while(bytes_to_read--) { *value <<= 8; *value += *state->cbor++; }\<close>.\<close>

fun read_argument :: "nat \<Rightarrow> uint64_t \<Rightarrow> reader \<Rightarrow> uint64_t \<times> reader" where
  "read_argument 0 val state = (val, state)"
| "read_argument (Suc n) val state =
     read_argument n (push_bit 8 val + ucast (input state (cbor state)))
       (state\<lparr>cbor := cbor state + 1\<rparr>)"

text \<open>\<^verbatim>\<open>cbor_read_unsigned(state, value)\<close>: the second argument is the content of
  \<^verbatim>\<open>*value\<close> before the call, the second component of the result its content after.\<close>

definition cbor_read_unsigned :: "reader \<Rightarrow> uint64_t \<Rightarrow> cbor_size_t \<times> uint64_t \<times> reader" where
  "cbor_read_unsigned state val =
     (if cbor_size state = 0 then (CBOR_SIZE_NONE, val, state)
      else
        let sz = uint (input state (cbor state)) AND NOT 0xE0;
            s1 = state\<lparr>cbor := cbor state + 1, cbor_size := cbor_size state - 1\<rparr>
        in if sz < CBOR_SIZE_1 then (CBOR_SIZE_1, word_of_int sz, s1)
           else
             case bytes_to_read sz of
               None \<Rightarrow> (CBOR_SIZE_NONE, val, s1)
             | Some n \<Rightarrow>
                 if n > cbor_size s1 then (CBOR_SIZE_NONE, val, s1)
                 else
                   let (v, s2) = read_argument (unat n) 0
                                   (s1\<lparr>cbor_size := cbor_size s1 - n\<rparr>)
                   in (sz, v, s2))"

text \<open>\<^verbatim>\<open>read_byte_or_text_string(state, size)\<close>: returns the pointer, the content of
  \<^verbatim>\<open>*size\<close> and the state. The local \<^verbatim>\<open>value\<close> is uninitialised and is not read
  unless \<^verbatim>\<open>cbor_read_unsigned\<close> has set it.\<close>

definition read_byte_or_text_string :: "reader \<Rightarrow> size_t \<Rightarrow> pointer \<times> size_t \<times> reader" where
  "read_byte_or_text_string state sz =
     (let (r, val, s1) = cbor_read_unsigned state 0
      in if r = CBOR_SIZE_NONE \<or> val > SIZE_MAX \<or> cbor_size s1 < val
         then (None, sz, s1)
         else (Some (cbor s1), val,
               s1\<lparr>cbor := cbor s1 + unat val, cbor_size := cbor_size s1 - val\<rparr>))"

definition cbor_read_data :: "reader \<Rightarrow> size_t \<Rightarrow> pointer \<times> size_t \<times> reader" where
  "cbor_read_data state data_size =
     (let (t, s1) = cbor_read_next state
      in if t \<noteq> CBOR_MAJOR_TYPE_BYTE_STRING then (None, data_size, s1)
         else read_byte_or_text_string s1 data_size)"

definition cbor_read_text :: "reader \<Rightarrow> size_t \<Rightarrow> pointer \<times> size_t \<times> reader" where
  "cbor_read_text state text_size =
     (let (t, s1) = cbor_read_next state
      in if t \<noteq> CBOR_MAJOR_TYPE_TEXT_STRING then (None, text_size, s1)
         else read_byte_or_text_string s1 text_size)"

definition read_array_or_map :: "reader \<Rightarrow> size_t \<times> reader" where
  "read_array_or_map state =
     (let (r, val, s1) = cbor_read_unsigned state 0
      in if r = CBOR_SIZE_NONE \<or> val \<ge> SIZE_MAX then (SIZE_MAX, s1)
         else (val, s1))"

definition cbor_read_array :: "reader \<Rightarrow> size_t \<times> reader" where
  "cbor_read_array state =
     (let (t, s1) = cbor_read_next state
      in if t \<noteq> CBOR_MAJOR_TYPE_ARRAY then (SIZE_MAX, s1)
         else read_array_or_map s1)"

definition cbor_read_map :: "reader \<Rightarrow> size_t \<times> reader" where
  "cbor_read_map state =
     (let (t, s1) = cbor_read_next state
      in if t \<noteq> CBOR_MAJOR_TYPE_MAP then (SIZE_MAX, s1)
         else read_array_or_map s1)"

definition cbor_read_simple :: "reader \<Rightarrow> cbor_simple_value_t \<times> reader" where
  "cbor_read_simple state =
     (if cbor_size state = 0 then (CBOR_SIMPLE_VALUE_NONE, state)
      else (uint (input state (cbor state)),
            state\<lparr>cbor := cbor state + 1, cbor_size := cbor_size state - 1\<rparr>))"

subsection \<open>Auxiliary notions and example states\<close>

text \<open>The poisoned state of the writer: \<^verbatim>\<open>buffer == NULL\<close> and \<^verbatim>\<open>buffer_size == 0\<close>.\<close>

definition poisoned :: "writer \<Rightarrow> bool" where
  "poisoned state \<longleftrightarrow> buffer state = None \<and> buffer_size state = 0"

text \<open>A writer structure before \<^verbatim>\<open>cbor_init_writer\<close>, over a zeroed store.\<close>

definition blank_writer :: writer where
  "blank_writer =
     \<lparr>buffer = None, buffer_size = 0, nesting_depth = 0,
      objects = (\<lambda>_. 0), mem = (\<lambda>_. 0)\<rparr>"

text \<open>A reader with one byte left, the tag initial byte \<^verbatim>\<open>0xC0\<close>.\<close>

definition tag_reader :: reader where
  "tag_reader = \<lparr>cbor = 0, cbor_size = 1, input = (\<lambda>_. 0xC0)\<rparr>"

text \<open>Readers over inputs that end early: a byte string header announcing five bytes
  with one byte left, and a text string header whose length byte is missing.\<close>

definition truncated_data_reader :: reader where
  "truncated_data_reader =
     \<lparr>cbor = 0, cbor_size = 3,
      input = (\<lambda>a. if a = 0 then 0x58 else if a = 1 then 0x05 else 0x01)\<rparr>"

definition truncated_text_reader :: reader where
  "truncated_text_reader = \<lparr>cbor = 0, cbor_size = 1, input = (\<lambda>_. 0x78)\<rparr>"

text \<open>Readers positioned at the unsigned integers 23 (immediate) and 123 (one
  argument byte).\<close>

definition immediate_reader :: reader where
  "immediate_reader = \<lparr>cbor = 0, cbor_size = 1, input = (\<lambda>_. 0x17)\<rparr>"

definition u8_reader :: reader where
  "u8_reader = \<lparr>cbor = 0, cbor_size = 2, input = (\<lambda>a. if a = 0 then 0x18 else 0x7B)\<rparr>"

text \<open>A writer with an open array of five items and no free byte left.\<close>

definition full_writer :: writer where
  "full_writer =
     \<lparr>buffer = Some 100, buffer_size = 0, nesting_depth = 7,
      objects = (\<lambda>_. 5), mem = (\<lambda>_. 0)\<rparr>"

text \<open>The cursor of a writer on the buffer at \<open>buf\<close> stands as many bytes above the
  base as there are free bytes.\<close>

definition within :: "addr \<Rightarrow> writer \<Rightarrow> bool" where
  "within buf state \<longleftrightarrow> buffer state = Some (buf + unat (buffer_size state))"

text \<open>The table of encoded sizes as the specification states it: 1 byte below 24,
  2 up to \<^verbatim>\<open>0xFF\<close>, 3 up to \<^verbatim>\<open>0xFFFF\<close>, 5 up to \<^verbatim>\<open>0xFFFFFFFF\<close>, 9 otherwise.\<close>

definition shortest_form_size :: "uint64_t \<Rightarrow> nat" where
  "shortest_form_size v =
     (if v < 24 then 1 else if v \<le> 0xFF then 2 else if v \<le> 0xFFFF then 3
      else if v \<le> 0xFFFFFFFF then 5 else 9)"

text \<open>A writer with an open map of four items (two pairs) and ten free bytes in the
  buffer at address 100.\<close>

definition open_map_writer :: writer where
  "open_map_writer =
     \<lparr>buffer = Some 110, buffer_size = 10, nesting_depth = 7,
      objects = (\<lambda>_. 4), mem = (\<lambda>_. 0)\<rparr>"

text \<open>The prepend calls that lay down one item; an object fragment of no bytes is not an
  item. \<open>call_size\<close> is the number of bytes a call needs in the buffer, \<open>session_size\<close>
  their sum over a sequence of calls.\<close>

fun item_call :: "writer_call \<Rightarrow> bool" where
  "item_call (Prepend_unsigned v) = True"
| "item_call (Prepend_data d n) = True"
| "item_call (Prepend_text t n) = True"
| "item_call (Prepend_object ob n) = (n \<noteq> 0)"
| "item_call Prepend_null = True"
| "item_call Prepend_undefined = True"
| "item_call (Prepend_bool b) = True"
| "item_call (Wrap_data n) = False"
| "item_call Open_array = False"
| "item_call Open_map = False"
| "item_call Wrap_array = False"
| "item_call Wrap_map = False"

fun call_size :: "writer_call \<Rightarrow> nat" where
  "call_size (Prepend_unsigned v) = unat (CBOR_UNSIGNED_SIZE v)"
| "call_size (Prepend_data d n) = unat (CBOR_UNSIGNED_SIZE n) + unat n"
| "call_size (Prepend_text t n) = unat (CBOR_UNSIGNED_SIZE n) + unat n"
| "call_size (Prepend_object ob n) = unat n"
| "call_size (Wrap_data n) = unat (CBOR_UNSIGNED_SIZE n)"
| "call_size Open_array = 0"
| "call_size Open_map = 0"
| "call_size Wrap_array = 0"
| "call_size Wrap_map = 0"
| "call_size Prepend_null = 1"
| "call_size Prepend_undefined = 1"
| "call_size (Prepend_bool b) = 1"

definition session_size :: "writer_call list \<Rightarrow> nat" where
  "session_size cs = sum_list (map call_size cs)"

text \<open>Two writer states with the same container counters.\<close>

definition same_counters :: "writer \<Rightarrow> writer \<Rightarrow> bool" where
  "same_counters a b \<longleftrightarrow> nesting_depth a = nesting_depth b \<and> objects a = objects b"

text \<open>What an item call does to a writer with enough room.\<close>

definition item_step :: "addr \<Rightarrow> writer \<Rightarrow> nat \<Rightarrow> writer \<Rightarrow> bool" where
  "item_step buf s k s' \<longleftrightarrow>
     within buf s' \<and> unat (buffer_size s') = unat (buffer_size s) - k
     \<and> same_counters s' (increment s)"

section \<open>Properties\<close>

subsection \<open>Bit fields of the initial byte\<close>

lemma uint8_and_255: "uint (b::8 word) AND 255 = uint b"
proof -
  have "take_bit 8 (uint b) = uint b"
    using take_bit_length_eq [of b] by (simp add: unsigned_take_bit_eq [symmetric])
  moreover have "(mask 8 :: int) = 255" by (simp add: mask_eq_exp_minus_1)
  ultimately show ?thesis by (simp add: take_bit_eq_mask)
qed

lemma low_bits: "uint (b::8 word) AND NOT 0xE0 = uint b mod 32"
proof -
  have "uint b AND NOT 0xE0 = (uint b AND 255) AND NOT 0xE0"
    by (simp only: uint8_and_255)
  also have "\<dots> = uint b AND (255 AND NOT 0xE0)"
    by (simp only: and.assoc)
  also have "(255 :: int) AND NOT 0xE0 = mask 5" by (simp add: mask_eq_exp_minus_1)
  finally show ?thesis by (simp add: take_bit_eq_mask [symmetric] take_bit_eq_mod)
qed

lemma high_bits: "uint (b::8 word) AND 0xE0 = 32 * (uint b div 32)"
proof -
  have k: "(mask (3 + 5) AND NOT (mask 5) :: int) = 0xE0"
    by (simp add: mask_eq_exp_minus_1)
  have "push_bit 5 (take_bit 3 (drop_bit 5 (uint b))) = uint b AND 0xE0"
    unfolding slice_eq_mask k ..
  then have "uint b AND 0xE0 = 32 * ((uint b div 32) mod 8)"
    by (simp add: push_bit_eq_mult take_bit_eq_mod drop_bit_eq_div)
  moreover have "uint b < 256" using uint_bounded [of b] by simp
  moreover have "0 \<le> uint b" by simp
  ultimately show ?thesis by simp
qed

lemma uint_mod32: "uint (b AND 0x1F :: 8 word) = uint b mod 32"
proof -
  have m: "(31 :: int) = mask 5" by (simp add: mask_eq_exp_minus_1)
  have "uint (b AND 0x1F) = uint b AND 31" by (simp add: uint_and)
  also have "\<dots> = take_bit 5 (uint b)" by (simp only: m take_bit_eq_mask)
  finally show ?thesis by (simp add: take_bit_eq_mod)
qed

lemma read_next_fst:
  "fst (cbor_read_next r) =
     (if cbor_size r = 0 then CBOR_MAJOR_TYPE_NONE else 32 * (uint (input r (cbor r)) div 32))"
  by (simp add: cbor_read_next_def high_bits)

lemma read_next_snd: "snd (cbor_read_next r) = r"
  by (simp add: cbor_read_next_def)

subsection \<open>The poisoned state is absorbing\<close>

lemma poisoned_increment: "poisoned s \<Longrightarrow> poisoned (increment s)"
  by (simp add: poisoned_def increment_def)

lemma poisoned_prepend_object: "poisoned s \<Longrightarrow> poisoned (prepend_object s ob n)"
  by (auto simp: poisoned_def prepend_object_def word_gt_0)

lemma poisoned_prepend_unsigned: "poisoned s \<Longrightarrow> poisoned (prepend_unsigned s v)"
  by (simp add: poisoned_def prepend_unsigned_def)

lemma poisoned_cbor_prepend_unsigned: "poisoned s \<Longrightarrow> poisoned (cbor_prepend_unsigned s v)"
  by (simp add: cbor_prepend_unsigned_def poisoned_increment poisoned_prepend_unsigned)

lemma poisoned_wrap_data: "poisoned s \<Longrightarrow> poisoned (cbor_wrap_data s n)"
  using poisoned_cbor_prepend_unsigned [of s n]
  by (simp add: cbor_wrap_data_def Let_def poisoned_def)

lemma poisoned_prepend_text: "poisoned s \<Longrightarrow> poisoned (cbor_prepend_text s t n)"
  using poisoned_cbor_prepend_unsigned [OF poisoned_prepend_object, of s t n n]
  by (simp add: cbor_prepend_text_def Let_def poisoned_def)

lemma poisoned_open_array: "poisoned s \<Longrightarrow> poisoned (snd (cbor_open_array s))"
  by (simp add: cbor_open_array_def poisoned_def)

lemma poisoned_wrap_array: "poisoned s \<Longrightarrow> poisoned (snd (cbor_wrap_array s))"
  using poisoned_prepend_unsigned [of s "objects s (unat (nesting_depth s))"]
  by (simp add: cbor_wrap_array_def Let_def poisoned_def)

lemma poisoned_wrap_map: "poisoned s \<Longrightarrow> poisoned (snd (cbor_wrap_map s))"
  using poisoned_prepend_unsigned [of s "drop_bit 1 (objects s (unat (nesting_depth s)))"]
  by (simp add: cbor_wrap_map_def Let_def poisoned_def)

lemma poisoned_prepend_simple: "poisoned s \<Longrightarrow> poisoned (prepend_simple s v)"
  by (simp add: prepend_simple_def poisoned_def)

lemma poisoned_call: "poisoned s \<Longrightarrow> poisoned (call c s)"
  by (cases c)
     (simp_all add: poisoned_cbor_prepend_unsigned cbor_prepend_data_def poisoned_wrap_data
        poisoned_prepend_object poisoned_prepend_text cbor_prepend_object_def poisoned_increment
        poisoned_open_array cbor_open_map_def poisoned_wrap_array poisoned_wrap_map
        cbor_prepend_null_def cbor_prepend_undefined_def cbor_prepend_bool_def
        poisoned_prepend_simple)

lemma poisoned_calls: "poisoned s \<Longrightarrow> poisoned (calls cs s)"
  by (induction cs arbitrary: s) (simp_all add: poisoned_call)

lemma poisoned_stop: "poisoned s \<Longrightarrow> cbor_stop_writer s = None"
  by (simp add: poisoned_def cbor_stop_writer_def)

subsection \<open>State effect of the reader\<close>

lemma low_bits': "uint (b::8 word) AND - 225 = uint b mod 32"
  using low_bits [of b] by simp

lemma read_argument_state: "snd (read_argument n v r) = r\<lparr>cbor := cbor r + n\<rparr>"
  by (induction n arbitrary: v r) simp_all

lemma read_unsigned_state:
  assumes "cbor_size r \<noteq> 0"
  shows "\<exists>n\<in>{1, 2, 3, 5, 9}. snd (snd (cbor_read_unsigned r v)) =
           r\<lparr>cbor := cbor r + n, cbor_size := cbor_size r - of_nat n\<rparr>"
  using assms
  by (auto simp: cbor_read_unsigned_def Let_def bytes_to_read_def split_beta read_argument_state
      split: option.splits)

lemma read_string_state:
  assumes "cbor_size r \<noteq> 0" and "fst (read_byte_or_text_string r sz) = None"
  shows "\<exists>n\<in>{1, 2, 3, 5, 9}. read_byte_or_text_string r sz =
           (None, sz, r\<lparr>cbor := cbor r + n, cbor_size := cbor_size r - of_nat n\<rparr>)"
proof -
  from assms(2) have "read_byte_or_text_string r sz = (None, sz, snd (snd (cbor_read_unsigned r 0)))"
    by (simp add: read_byte_or_text_string_def split_beta split: if_splits)
  with read_unsigned_state [OF assms(1), of 0] show ?thesis by auto
qed

lemma read_next_nonempty: "fst (cbor_read_next r) \<noteq> CBOR_MAJOR_TYPE_NONE \<Longrightarrow> cbor_size r \<noteq> 0"
  by (auto simp: cbor_read_next_def)

lemma truncated_data_run:
  "cbor_read_data truncated_data_reader 0 =
     (None, 0, truncated_data_reader\<lparr>cbor := 2, cbor_size := 1\<rparr>)"
  by (simp add: truncated_data_reader_def cbor_read_data_def cbor_read_next_def
      read_byte_or_text_string_def cbor_read_unsigned_def bytes_to_read_def Let_def
      CBOR_MAJOR_TYPE_BYTE_STRING_def CBOR_SIZE_1_def CBOR_SIZE_NONE_def SIZE_MAX_def)

lemma read_unsigned_immediate:
  assumes "cbor_size r \<noteq> 0" and "input r (cbor r) AND 0x1F < 24"
  shows "cbor_read_unsigned r v =
           (CBOR_SIZE_1, ucast (input r (cbor r) AND 0x1F),
            r\<lparr>cbor := cbor r + 1, cbor_size := cbor_size r - 1\<rparr>)"
proof -
  let ?b = "input r (cbor r)"
  have "uint (?b AND 0x1F) < 24" using assms(2) by (simp add: word_less_def)
  then have lt: "uint ?b mod 32 < 24" by (simp add: uint_mod32)
  have "(word_of_int (uint ?b mod 32) :: uint64_t) = ucast (?b AND 0x1F)"
    by (simp add: uint_mod32 [symmetric])
  with lt assms(1) show ?thesis
    by (simp add: cbor_read_unsigned_def low_bits' Let_def CBOR_SIZE_1_def)
qed

lemma read_unsigned_u8:
  assumes "2 \<le> cbor_size r" and "input r (cbor r) AND 0x1F = 24"
  shows "cbor_read_unsigned r v =
           (CBOR_SIZE_1, ucast (input r (cbor r + 1)),
            r\<lparr>cbor := cbor r + 2, cbor_size := cbor_size r - 2\<rparr>)"
proof -
  let ?b = "input r (cbor r)"
  have "uint (?b AND 0x1F) = 24" using assms(2) by simp
  then have f: "uint ?b mod 32 = 24" by (simp add: uint_mod32)
  have nz: "cbor_size r \<noteq> 0" using assms(1) by auto
  have ge: "\<not> cbor_size r - 1 < 1"
    using assms(1) by (simp add: word_less_nat_alt word_le_nat_alt unat_sub)
  from f nz ge show ?thesis
    by (simp add: cbor_read_unsigned_def low_bits' Let_def CBOR_SIZE_1_def bytes_to_read_def)
qed

subsection \<open>The argument loop of the writer\<close>

lemma write_argument_fields:
  "buffer_size (write_argument n v s) = buffer_size s"
  "nesting_depth (write_argument n v s) = nesting_depth s"
  "objects (write_argument n v s) = objects s"
  by (induction n arbitrary: v s) simp_all

lemma write_argument_buffer:
  "buffer s = Some p \<Longrightarrow> buffer (write_argument n v s) = Some (p - n)"
  by (induction n arbitrary: v s p) simp_all

lemma write_argument_mem:
  assumes "buffer s = Some p" and "n \<le> p"
  shows "mem (write_argument n v s) a =
           (if p - n \<le> a \<and> a < p then ucast (drop_bit (8 * (p - 1 - a)) v) else mem s a)"
  using assms
proof (induction n arbitrary: v s p)
  case 0
  then show ?case by auto
next
  case (Suc n)
  let ?s1 = "s\<lparr>buffer := ptr_sub (buffer s) 1,
                mem := poke (mem s) (ptr_sub (buffer s) 1) (ucast v)\<rparr>"
  have b1: "buffer ?s1 = Some (p - 1)" using Suc.prems by simp
  have n1: "n \<le> p - 1" using Suc.prems by simp
  have m1: "mem ?s1 = (mem s)(p - 1 := ucast v)" using Suc.prems by simp
  have "mem (write_argument (Suc n) v s) a = mem (write_argument n (drop_bit 8 v) ?s1) a"
    by simp
  also have "\<dots> = (if p - 1 - n \<le> a \<and> a < p - 1
                        then ucast (drop_bit (8 * (p - 1 - 1 - a)) (drop_bit 8 v))
                        else mem ?s1 a)"
    by (rule Suc.IH [OF b1 n1])
  also have "\<dots> = (if p - Suc n \<le> a \<and> a < p
                        then ucast (drop_bit (8 * (p - 1 - a)) v) else mem s a)"
  proof (cases "a = p - 1")
    case True
    have "p - Suc n \<le> p - 1" "p - 1 < p" "\<not> p - 1 < p - 1" "p - 1 - (p - 1) = 0"
      using Suc.prems(2) by simp_all
    then show ?thesis unfolding True m1 by simp
  next
    case False
    have "8 * (p - 1 - 1 - a) + 8 = 8 * (p - 1 - a)" if "a < p - 1"
      using that by simp
    then show ?thesis using False m1 by (auto simp: drop_bit_drop_bit add.commute)
  qed
  finally show ?case .
qed

subsection \<open>The argument loop of the reader\<close>

lemma take_bit_step:
  fixes v :: uint64_t
  shows "push_bit n (take_bit m (drop_bit n v)) + take_bit n v = take_bit (m + n) v"
proof -
  have "push_bit n (drop_bit n (take_bit (m + n) v)) + take_bit n (take_bit (m + n) v)
          = take_bit (m + n) v"
    by (rule bits_ident)
  then show ?thesis by (simp add: drop_bit_take_bit)
qed

lemma ucast_ucast_byte: "(ucast (ucast (x :: uint64_t) :: uint8_t) :: uint64_t) = take_bit 8 x"
  by (simp add: unsigned_ucast_eq)

lemma read_argument_value:
  assumes "\<And>i. i < n \<Longrightarrow> input r (cbor r + i) = ucast (drop_bit (8 * (n - 1 - i)) v)"
  shows "fst (read_argument n acc r) = push_bit (8 * n) acc + take_bit (8 * n) v"
  using assms
proof (induction n arbitrary: acc r)
  case 0
  then show ?case by simp
next
  case (Suc n)
  let ?r1 = "r\<lparr>cbor := cbor r + 1\<rparr>"
  have first: "input r (cbor r) = ucast (drop_bit (8 * n) v)"
    using Suc.prems [of 0] by simp
  have rest: "input ?r1 (cbor ?r1 + i) = ucast (drop_bit (8 * (n - 1 - i)) v)" if "i < n" for i
    using Suc.prems [of "Suc i"] that by simp
  have "fst (read_argument (Suc n) acc r)
          = fst (read_argument n (push_bit 8 acc + ucast (input r (cbor r))) ?r1)"
    by simp
  also have "\<dots> = push_bit (8 * n) (push_bit 8 acc + ucast (input r (cbor r))) + take_bit (8 * n) v"
    by (rule Suc.IH [OF rest])
  also have "\<dots> = push_bit (8 * Suc n) acc
                     + (push_bit (8 * n) (take_bit 8 (drop_bit (8 * n) v)) + take_bit (8 * n) v)"
    by (simp add: first ucast_ucast_byte push_bit_add push_bit_push_bit add.commute)
  also have "\<dots> = push_bit (8 * Suc n) acc + take_bit (8 * Suc n) v"
    by (simp only: take_bit_step) (simp add: add.commute)
  finally show ?case .
qed


subsection \<open>Size classes\<close>

lemma size_class_cases [case_names imm u8 u16 u32 u64]:
  fixes v :: uint64_t
  obtains "v < 24"
  | "\<not> v < 24" "v \<le> 0xFF"
  | "\<not> v < 24" "\<not> v \<le> 0xFF" "v \<le> 0xFFFF"
  | "\<not> v < 24" "\<not> v \<le> 0xFF" "\<not> v \<le> 0xFFFF" "v \<le> 0xFFFFFFFF"
  | "\<not> v < 24" "\<not> v \<le> 0xFF" "\<not> v \<le> 0xFFFF" "\<not> v \<le> 0xFFFFFFFF"
  by blast

lemmas size_defs = length_to_copy_def jump_byte_def CBOR_UNSIGNED_SIZE_def
  CBOR_SIZE_1_def CBOR_SIZE_2_def CBOR_SIZE_4_def CBOR_SIZE_8_def
  UINT8_MAX_def UINT16_MAX_def UINT32_MAX_def

lemma unsigned_size_eq: "CBOR_UNSIGNED_SIZE v = length_to_copy v + 1"
  by (simp add: size_defs)

lemma length_to_copy_le: "unat (length_to_copy v) \<le> 8"
  by (simp add: size_defs)

lemma length_to_copy_cases: "unat (length_to_copy v) \<in> {0, 1, 2, 4, 8}"
  by (simp add: size_defs)

lemma unat_unsigned_size: "unat (CBOR_UNSIGNED_SIZE v) = unat (length_to_copy v) + 1"
  by (simp add: size_defs)

lemma take_bit_small: "uint (v::uint64_t) < 2 ^ n \<Longrightarrow> take_bit n v = v"
  by (simp add: take_bit_eq_mask mask_eq_iff)

lemma take_bit_argument:
  "\<not> v < 24 \<Longrightarrow> take_bit (8 * unat (length_to_copy v)) v = v"
proof (cases v rule: size_class_cases)
  case u8
  then have "uint v < 2 ^ 8" by (simp add: word_le_def)
  then show ?thesis using u8 by (simp add: size_defs take_bit_small)
next
  case u16
  then have "uint v < 2 ^ 16" by (simp add: word_le_def)
  then show ?thesis using u16 by (simp add: size_defs take_bit_small)
next
  case u32
  then have "uint v < 2 ^ 32" by (simp add: word_le_def)
  then show ?thesis using u32 by (simp add: size_defs take_bit_small)
next
  case u64
  then show ?thesis by (simp add: size_defs take_bit_word_eq_self)
qed simp

lemma uint_jump_byte:
  "uint (jump_byte v) = (if v < 24 then uint v else if v \<le> 0xFF then 24
     else if v \<le> 0xFFFF then 25 else if v \<le> 0xFFFFFFFF then 26 else 27)"
proof (cases "v < 24")
  case True
  then have "uint v < 24" by (simp add: word_less_def)
  then have "take_bit 8 (uint v) = uint v" by (simp add: take_bit_int_eq_self)
  then show ?thesis using True by (simp add: size_defs unsigned_ucast_eq unsigned_take_bit_eq)
next
  case False
  then show ?thesis by (simp add: size_defs)
qed

lemma uint_jump_byte_less: "uint (jump_byte v) < 32"
  by (auto simp: uint_jump_byte word_less_def)

subsection \<open>The initial byte\<close>

lemma low_field_id: "uint (j :: uint8_t) < 32 \<Longrightarrow> j AND 0x1F = j"
  by (rule word_eq_iff_unsigned [where ?'a = int, THEN iffD2]) (simp add: uint_mod32)

lemma high_field_zero: "uint (j :: uint8_t) < 32 \<Longrightarrow> j AND 0xE0 = 0"
proof -
  assume "uint j < 32"
  then have "uint j AND 0xE0 = 0" by (simp add: high_bits)
  then have "uint (j AND 0xE0) = uint (0 :: uint8_t)" by (simp add: uint_and)
  then show ?thesis by (simp only: word_uint_eq_iff [symmetric])
qed

lemma initial_byte_low:
  assumes "uint (j :: uint8_t) < 32" and "t AND 0x1F = 0"
  shows "uint (j OR t) mod 32 = uint j"
proof -
  have "(j OR t) AND 0x1F = (j AND 0x1F) OR (t AND 0x1F)"
    by (rule bit.conj_disj_distrib2)
  also have "\<dots> = j" using assms by (simp add: low_field_id)
  finally show ?thesis by (simp add: uint_mod32 [symmetric])
qed

lemma initial_byte_high:
  assumes "uint (j :: uint8_t) < 32" and "t AND 0xE0 = t"
  shows "uint (j OR t) AND 0xE0 = uint t"
proof -
  have "(j OR t) AND 0xE0 = (j AND 0xE0) OR (t AND 0xE0)"
    by (rule bit.conj_disj_distrib2)
  also have "\<dots> = t" using assms by (simp add: high_field_zero)
  finally have "uint ((j OR t) AND 0xE0) = uint t" by simp
  then show ?thesis by (simp add: uint_and)
qed

subsection \<open>Effect of prepend_unsigned with room in the buffer\<close>

lemma prepend_unsigned_fields:
  "nesting_depth (prepend_unsigned s v) = nesting_depth s"
  "objects (prepend_unsigned s v) = objects s"
  by (simp_all add: prepend_unsigned_def Let_def write_argument_fields)

lemma prepend_unsigned_poison:
  "buffer_size s \<le> length_to_copy v \<Longrightarrow>
     prepend_unsigned s v = s\<lparr>buffer := None, buffer_size := 0\<rparr>"
  by (simp add: prepend_unsigned_def)

lemma prepend_unsigned_room:
  assumes "buffer s = Some p" and "unat (buffer_size s) \<le> p"
    and "length_to_copy v < buffer_size s"
  shows "buffer (prepend_unsigned s v) = Some (p - unat (CBOR_UNSIGNED_SIZE v))"
    and "buffer_size (prepend_unsigned s v) = buffer_size s - CBOR_UNSIGNED_SIZE v"
    and "mem (prepend_unsigned s v) a =
           (if a = p - unat (CBOR_UNSIGNED_SIZE v) then jump_byte v
            else if p - unat (length_to_copy v) \<le> a \<and> a < p
            then ucast (drop_bit (8 * (p - 1 - a)) v) else mem s a)"
proof -
  let ?n = "unat (length_to_copy v)"
  let ?s0 = "s\<lparr>buffer_size := buffer_size s - length_to_copy v\<rparr>"
  let ?s1 = "write_argument ?n v ?s0"
  have lt: "?n < unat (buffer_size s)" using assms(3) by (simp add: word_less_nat_alt)
  then have np: "?n \<le> p" "?n < p" using assms(2) by simp_all
  have b0: "buffer ?s0 = Some p" using assms(1) by simp
  have b1: "buffer ?s1 = Some (p - ?n)" by (rule write_argument_buffer [OF b0])
  have eq: "prepend_unsigned s v =
      ?s1\<lparr>buffer := Some (p - ?n - 1), buffer_size := buffer_size ?s1 - 1,
          mem := (mem ?s1)(p - ?n - 1 := jump_byte v)\<rparr>"
    using assms(3) b1 by (simp add: prepend_unsigned_def Let_def not_le [symmetric])
  show "buffer (prepend_unsigned s v) = Some (p - unat (CBOR_UNSIGNED_SIZE v))"
    by (simp add: eq unat_unsigned_size)
  show "buffer_size (prepend_unsigned s v) = buffer_size s - CBOR_UNSIGNED_SIZE v"
    by (simp add: eq write_argument_fields unsigned_size_eq)
  show "mem (prepend_unsigned s v) a =
           (if a = p - unat (CBOR_UNSIGNED_SIZE v) then jump_byte v
            else if p - unat (length_to_copy v) \<le> a \<and> a < p
            then ucast (drop_bit (8 * (p - 1 - a)) v) else mem s a)"
    using np by (simp add: eq unat_unsigned_size write_argument_mem [OF b0 np(1)])
qed

subsection \<open>Reading back a header\<close>

lemma read_header:
  assumes byte: "input r (cbor r) = jump_byte v OR t" and t: "t AND 0x1F = 0"
    and arg: "\<And>i. i < unat (length_to_copy v) \<Longrightarrow>
                input r (cbor r + 1 + i) = ucast (drop_bit (8 * (unat (length_to_copy v) - 1 - i)) v)"
    and room: "length_to_copy v < cbor_size r"
  shows "cbor_read_unsigned r x =
           (if v < 24 then CBOR_SIZE_1 else uint (jump_byte v), v,
            r\<lparr>cbor := cbor r + unat (CBOR_UNSIGNED_SIZE v),
              cbor_size := cbor_size r - CBOR_UNSIGNED_SIZE v\<rparr>)"
proof -
  let ?n = "length_to_copy v"
  let ?s1 = "r\<lparr>cbor := cbor r + 1, cbor_size := cbor_size r - 1\<rparr>"
  have nz: "cbor_size r \<noteq> 0" using room by auto
  have field: "uint (input r (cbor r)) AND NOT 0xE0 = uint (jump_byte v)"
    by (simp only: low_bits byte initial_byte_low [OF uint_jump_byte_less t])
  show ?thesis
  proof (cases "v < 24")
    case True
    then have "?n = 0" and "uint (jump_byte v) = uint v"
      by (simp_all add: uint_jump_byte) (simp add: size_defs)
    then show ?thesis
      using True nz field
      by (simp add: cbor_read_unsigned_def Let_def CBOR_SIZE_1_def word_less_def
          unat_unsigned_size unsigned_size_eq del: bit.compl_eq_compl_iff)
  next
    case False
    then have j: "\<not> uint (jump_byte v) < CBOR_SIZE_1"
      by (simp add: uint_jump_byte CBOR_SIZE_1_def)
    have btr: "bytes_to_read (uint (jump_byte v)) = Some ?n"
      using False by (simp add: uint_jump_byte bytes_to_read_def size_defs)
    have fits: "\<not> cbor_size ?s1 < ?n"
      using room nz
      by (simp add: word_less_nat_alt unat_sub word_le_nat_alt unat_gt_0 [symmetric]
          Suc_le_eq)
    let ?s2 = "?s1\<lparr>cbor_size := cbor_size ?s1 - ?n\<rparr>"
    have arg': "input ?s2 (cbor ?s2 + i) = ucast (drop_bit (8 * (unat ?n - 1 - i)) v)"
      if "i < unat ?n" for i
      using arg [OF that] by simp
    have val: "fst (read_argument (unat ?n) 0 ?s2) = v"
      using read_argument_value [of "unat ?n" ?s2 v 0, OF arg'] take_bit_argument [OF False]
      by simp
    have st: "snd (read_argument (unat ?n) 0 ?s2) =
        r\<lparr>cbor := cbor r + unat (CBOR_UNSIGNED_SIZE v),
          cbor_size := cbor_size r - CBOR_UNSIGNED_SIZE v\<rparr>"
    proof -
      have "unat (CBOR_UNSIGNED_SIZE v) = Suc (unat ?n)" by (simp add: unat_unsigned_size)
      moreover have "cbor_size r - CBOR_UNSIGNED_SIZE v = cbor_size r - 1 - ?n"
        by (simp add: unsigned_size_eq)
      ultimately show ?thesis by (simp add: read_argument_state)
    qed
    have "cbor_read_unsigned r x =
        (uint (jump_byte v), fst (read_argument (unat ?n) 0 ?s2),
         snd (read_argument (unat ?n) 0 ?s2))"
      using nz j btr fits
      by (simp only: cbor_read_unsigned_def Let_def field split_beta)
         simp
    then show ?thesis using False by (simp only: val st if_False)
  qed
qed

subsection \<open>The cursor invariant\<close>

lemma unat_unsigned_size_table: "unat (CBOR_UNSIGNED_SIZE v) = shortest_form_size v"
  by (simp add: size_defs shortest_form_size_def)

lemma memcpy_at:
  "memcpy m (Some q) bs a = (if q \<le> a \<and> a < q + length bs then bs ! (a - q) else m a)"
proof (induction bs arbitrary: m q)
  case Nil
  then show ?case by auto
next
  case (Cons b bs)
  have step: "memcpy (m(q := b)) (Some (Suc q)) bs a =
      (if Suc q \<le> a \<and> a < Suc q + length bs then bs ! (a - Suc q) else (m(q := b)) a)"
    by (rule Cons.IH)
  show ?case
    using step by (cases "a = q") (auto simp: nth_Cons' Suc_le_eq)
qed

lemma increment_fields:
  "buffer (increment s) = buffer s"
  "buffer_size (increment s) = buffer_size s"
  "nesting_depth (increment s) = nesting_depth s"
  "mem (increment s) = mem s"
  by (simp_all add: increment_def)

lemma or_major_type_fields:
  "buffer (or_major_type s t) = buffer s"
  "buffer_size (or_major_type s t) = buffer_size s"
  "nesting_depth (or_major_type s t) = nesting_depth s"
  "objects (or_major_type s t) = objects s"
  by (simp_all add: or_major_type_def)

lemma within_increment: "within buf (increment s) = within buf s"
  by (simp add: within_def increment_fields)

lemma within_or_major_type: "within buf (or_major_type s t) = within buf s"
  by (simp add: within_def or_major_type_fields)

lemma within_init: "within buf (cbor_init_writer s buf n)"
  by (simp add: within_def cbor_init_writer_def)

lemma room_iff: "length_to_copy v < n \<longleftrightarrow> unat (CBOR_UNSIGNED_SIZE v) \<le> unat n"
  by (simp add: word_less_nat_alt unat_unsigned_size Suc_le_eq)

lemma prepend_unsigned_within:
  assumes "within buf s" and "unat (CBOR_UNSIGNED_SIZE v) \<le> unat (buffer_size s)"
  shows "within buf (prepend_unsigned s v)"
    and "unat (buffer_size (prepend_unsigned s v))
           = unat (buffer_size s) - unat (CBOR_UNSIGNED_SIZE v)"
    and "buffer (prepend_unsigned s v)
           = Some (buf + unat (buffer_size s) - unat (CBOR_UNSIGNED_SIZE v))"
proof -
  have b: "buffer s = Some (buf + unat (buffer_size s))" using assms(1) by (simp add: within_def)
  have le: "unat (buffer_size s) \<le> buf + unat (buffer_size s)" by simp
  have room: "length_to_copy v < buffer_size s" using assms(2) by (simp add: room_iff)
  have wle: "CBOR_UNSIGNED_SIZE v \<le> buffer_size s" using assms(2) by (simp add: word_le_nat_alt)
  note r = prepend_unsigned_room [OF b le room]
  show 2: "unat (buffer_size (prepend_unsigned s v))
           = unat (buffer_size s) - unat (CBOR_UNSIGNED_SIZE v)"
    by (simp add: r(2) unat_sub [OF wle])
  show 3: "buffer (prepend_unsigned s v)
           = Some (buf + unat (buffer_size s) - unat (CBOR_UNSIGNED_SIZE v))"
    by (rule r(1))
  show "within buf (prepend_unsigned s v)"
    using assms(2) by (simp add: within_def 2 3)
qed

lemma prepend_unsigned_no_room:
  assumes "unat (buffer_size s) < unat (CBOR_UNSIGNED_SIZE v)"
  shows "poisoned (prepend_unsigned s v)"
proof -
  have "buffer_size s \<le> length_to_copy v"
    using assms by (simp add: word_le_nat_alt unat_unsigned_size)
  then show ?thesis by (simp add: prepend_unsigned_poison poisoned_def)
qed

lemma prepend_object_within:
  assumes "within buf s" and "unat n \<le> unat (buffer_size s)"
  shows "within buf (prepend_object s ob n)"
    and "unat (buffer_size (prepend_object s ob n)) = unat (buffer_size s) - unat n"
    and "buffer (prepend_object s ob n) = Some (buf + unat (buffer_size s) - unat n)"
    and "mem (prepend_object s ob n) a =
           (if buf + unat (buffer_size s) - unat n \<le> a
               \<and> a < buf + unat (buffer_size s) - unat n + min (unat n) (length ob)
            then ob ! (a - (buf + unat (buffer_size s) - unat n)) else mem s a)"
proof -
  have b: "buffer s = Some (buf + unat (buffer_size s))" using assms(1) by (simp add: within_def)
  have wle: "n \<le> buffer_size s" using assms(2) by (simp add: word_le_nat_alt)
  then have nlt: "\<not> buffer_size s < n" by simp
  show 2: "unat (buffer_size (prepend_object s ob n)) = unat (buffer_size s) - unat n"
    using nlt by (simp add: prepend_object_def unat_sub [OF wle])
  show 3: "buffer (prepend_object s ob n) = Some (buf + unat (buffer_size s) - unat n)"
    using nlt b by (simp add: prepend_object_def)
  show "within buf (prepend_object s ob n)"
    using assms(2) by (simp add: within_def 2 3)
  show "mem (prepend_object s ob n) a =
           (if buf + unat (buffer_size s) - unat n \<le> a
               \<and> a < buf + unat (buffer_size s) - unat n + min (unat n) (length ob)
            then ob ! (a - (buf + unat (buffer_size s) - unat n)) else mem s a)"
    using nlt b by (auto simp: prepend_object_def memcpy_at min_def)
qed

lemma stop_at_top: "nesting_depth s = CBOR_MAX_NESTING \<Longrightarrow> cbor_stop_writer s = buffer s"
  by (simp add: cbor_stop_writer_def)

subsection \<open>Reading back what the writer has laid down\<close>

lemma reader_on_simps:
  "cbor (reader_on m c n) = c" "cbor_size (reader_on m c n) = n" "input (reader_on m c n) = m"
  by (simp_all add: reader_on_def cbor_init_reader_def)

lemma reader_on_update:
  "(reader_on m c n)\<lparr>cbor := c', cbor_size := n'\<rparr> = reader_on m c' n'"
  by (simp add: reader_on_def cbor_init_reader_def)

lemma read_written_header:
  assumes w: "within buf s" and room: "unat (CBOR_UNSIGNED_SIZE v) \<le> unat (buffer_size s)"
    and t: "t AND 0x1F = 0"
    and q: "q = buf + unat (buffer_size s) - unat (CBOR_UNSIGNED_SIZE v)"
    and m: "m = (mem (prepend_unsigned s v))(q := mem (prepend_unsigned s v) q OR t)"
    and n: "unat (CBOR_UNSIGNED_SIZE v) \<le> unat n"
  shows "cbor_read_unsigned (reader_on m q n) x =
           (if v < 24 then CBOR_SIZE_1 else uint (jump_byte v), v,
            reader_on m (q + unat (CBOR_UNSIGNED_SIZE v)) (n - CBOR_UNSIGNED_SIZE v))"
proof -
  define P where "P = buf + unat (buffer_size s)"
  define L where "L = unat (length_to_copy v)"
  define s' where "s' = prepend_unsigned s v"
  have b: "buffer s = Some P" using w by (simp add: within_def P_def)
  have le: "unat (buffer_size s) \<le> P" by (simp add: P_def)
  have r: "length_to_copy v < buffer_size s" using room by (simp add: room_iff)
  have mem: "mem s' a = (if a = P - Suc L then jump_byte v
            else if P - L \<le> a \<and> a < P then ucast (drop_bit (8 * (P - 1 - a)) v)
            else mem s a)" for a
    using prepend_unsigned_room(3) [OF b le r, of a]
    by (simp add: s'_def L_def unat_unsigned_size)
  have L: "Suc L \<le> P" using room le by (simp add: unat_unsigned_size L_def)
  have q': "q = P - Suc L" by (simp add: q unat_unsigned_size P_def L_def)
  have m': "m = (mem s')(q := mem s' q OR t)" by (simp add: m s'_def)
  have byte: "input (reader_on m q n) (cbor (reader_on m q n)) = jump_byte v OR t"
    by (simp add: reader_on_simps m' mem q')
  have arg: "input (reader_on m q n) (cbor (reader_on m q n) + 1 + i)
               = ucast (drop_bit (8 * (unat (length_to_copy v) - 1 - i)) v)"
    if "i < unat (length_to_copy v)" for i
  proof -
    from that have i: "i < L" by (simp add: L_def)
    define a where "a = q + 1 + i"
    have "a \<noteq> q" "P - L \<le> a" "a < P" "P - 1 - a = L - 1 - i" "a \<noteq> P - Suc L"
      using L i by (simp_all add: a_def q')
    then have "m a = ucast (drop_bit (8 * (L - 1 - i)) v)"
      by (simp add: m' mem del: One_nat_def)
    then show ?thesis by (simp only: reader_on_simps a_def L_def)
  qed
  have room': "length_to_copy v < cbor_size (reader_on m q n)"
    using n by (simp add: reader_on_simps room_iff)
  show ?thesis
    using read_header [OF byte t arg room', of x]
    by (simp add: reader_on_simps reader_on_update)
qed

lemma init_fields:
  "buffer_size (cbor_init_writer s buf n) = n"
  "nesting_depth (cbor_init_writer s buf n) = CBOR_MAX_NESTING"
  "buffer (cbor_init_writer s buf n) = Some (buf + unat n)"
  "mem (cbor_init_writer s buf n) = mem s"
  by (simp_all add: cbor_init_writer_def)

lemma cbor_prepend_unsigned_fields:
  "buffer (cbor_prepend_unsigned s v) = buffer (prepend_unsigned s v)"
  "buffer_size (cbor_prepend_unsigned s v) = buffer_size (prepend_unsigned s v)"
  "nesting_depth (cbor_prepend_unsigned s v) = nesting_depth s"
  "mem (cbor_prepend_unsigned s v) = mem (prepend_unsigned s v)"
  by (simp_all add: cbor_prepend_unsigned_def increment_fields prepend_unsigned_fields)

lemma size_class_not_none: "(if v < 24 then CBOR_SIZE_1 else uint (jump_byte v)) \<noteq> CBOR_SIZE_NONE"
  by (simp add: uint_jump_byte CBOR_SIZE_1_def CBOR_SIZE_NONE_def)

lemma shortest_form_size_bounds: "1 \<le> shortest_form_size v" "shortest_form_size v \<le> 9"
  by (simp_all add: shortest_form_size_def)

subsection \<open>Exact fit\<close>

lemma cbor_prepend_unsigned_poisoned:
  "poisoned (prepend_unsigned s v) \<Longrightarrow> poisoned (cbor_prepend_unsigned s v)"
  by (simp add: cbor_prepend_unsigned_def poisoned_increment)

lemma wrap_data_fields:
  "buffer (cbor_wrap_data s n) = buffer (prepend_unsigned s n)"
  "buffer_size (cbor_wrap_data s n) = buffer_size (prepend_unsigned s n)"
  "nesting_depth (cbor_wrap_data s n) = nesting_depth s"
  by (simp_all add: cbor_wrap_data_def Let_def cbor_prepend_unsigned_fields or_major_type_fields)

lemma prepend_object_depth: "nesting_depth (prepend_object s ob n) = nesting_depth s"
  by (simp add: prepend_object_def)

lemma prepend_data_fields:
  "buffer (cbor_prepend_data s d n) = buffer (prepend_unsigned (prepend_object s d n) n)"
  "buffer_size (cbor_prepend_data s d n) = buffer_size (prepend_unsigned (prepend_object s d n) n)"
  "nesting_depth (cbor_prepend_data s d n) = nesting_depth s"
  by (simp_all add: cbor_prepend_data_def wrap_data_fields prepend_object_depth)

lemma poisoned_iff: "poisoned s \<longleftrightarrow> buffer s = None \<and> buffer_size s = 0"
  by (simp add: poisoned_def)

lemma prepend_data_poisoned:
  "poisoned (prepend_unsigned (prepend_object s d n) n) \<Longrightarrow> poisoned (cbor_prepend_data s d n)"
  by (simp add: poisoned_def prepend_data_fields)

lemma unsigned_size_pos: "0 < unat (CBOR_UNSIGNED_SIZE v)"
  by (simp add: unat_unsigned_size)

lemma unsigned_exact_fit:
  "cbor_stop_writer (cbor_prepend_unsigned (cbor_init_writer s buf (CBOR_UNSIGNED_SIZE v)) v) = Some buf"
proof -
  let ?s0 = "cbor_init_writer s buf (CBOR_UNSIGNED_SIZE v)"
  have "within buf ?s0" by (rule within_init)
  moreover have "unat (CBOR_UNSIGNED_SIZE v) \<le> unat (buffer_size ?s0)"
    by (simp add: init_fields)
  ultimately have "buffer (prepend_unsigned ?s0 v) = Some buf"
    by (simp add: prepend_unsigned_within(3) init_fields)
  then show ?thesis
    by (simp add: stop_at_top cbor_prepend_unsigned_fields init_fields)
qed

lemma unsigned_one_short:
  "poisoned (cbor_prepend_unsigned (cbor_init_writer s buf (CBOR_UNSIGNED_SIZE v - 1)) v)"
proof -
  let ?s0 = "cbor_init_writer s buf (CBOR_UNSIGNED_SIZE v - 1)"
  have "buffer_size ?s0 = length_to_copy v" by (simp add: init_fields unsigned_size_eq)
  then have "poisoned (prepend_unsigned ?s0 v)"
    by (simp add: prepend_unsigned_poison poisoned_def)
  then show ?thesis by (rule cbor_prepend_unsigned_poisoned)
qed

lemma byte_string_size_unat:
  assumes "unat (CBOR_UNSIGNED_SIZE n) + unat n < 2 ^ 64"
  shows "unat (CBOR_BYTE_STRING_SIZE n) = unat (CBOR_UNSIGNED_SIZE n) + unat n"
  using assms by (simp add: CBOR_BYTE_STRING_SIZE_def unat_add_lem [THEN iffD1])

lemma data_exact_fit:
  assumes "unat (CBOR_UNSIGNED_SIZE n) + unat n < 2 ^ 64"
  shows "cbor_stop_writer (cbor_prepend_data (cbor_init_writer s buf (CBOR_BYTE_STRING_SIZE n)) d n)
           = Some buf"
proof -
  let ?s0 = "cbor_init_writer s buf (CBOR_BYTE_STRING_SIZE n)"
  let ?s1 = "prepend_object ?s0 d n"
  note sz = byte_string_size_unat [OF assms]
  have w0: "within buf ?s0" by (rule within_init)
  have r0: "unat n \<le> unat (buffer_size ?s0)" by (simp add: init_fields sz)
  note o = prepend_object_within [OF w0 r0]
  have r1: "unat (CBOR_UNSIGNED_SIZE n) \<le> unat (buffer_size ?s1)"
    by (simp add: o(2) init_fields sz)
  have "buffer (prepend_unsigned ?s1 n) = Some buf"
    by (simp add: prepend_unsigned_within(3) [OF o(1) r1] o(2) init_fields sz)
  then show ?thesis
    by (simp add: stop_at_top prepend_data_fields init_fields)
qed

lemma data_one_short:
  assumes "unat (CBOR_UNSIGNED_SIZE n) + unat n < 2 ^ 64"
  shows "poisoned (cbor_prepend_data (cbor_init_writer s buf (CBOR_BYTE_STRING_SIZE n - 1)) d n)"
proof -
  let ?s0 = "cbor_init_writer s buf (CBOR_BYTE_STRING_SIZE n - 1)"
  let ?s1 = "prepend_object ?s0 d n"
  note sz = byte_string_size_unat [OF assms]
  have pos: "1 \<le> CBOR_BYTE_STRING_SIZE n"
    using unsigned_size_pos [of n] by (simp add: word_le_nat_alt sz)
  have sz1: "unat (buffer_size ?s0) = unat (length_to_copy n) + unat n"
    by (simp add: init_fields unat_sub [OF pos] sz unat_unsigned_size)
  have w0: "within buf ?s0" by (rule within_init)
  have r0: "unat n \<le> unat (buffer_size ?s0)" by (simp add: sz1)
  note o = prepend_object_within [OF w0 r0]
  have "unat (buffer_size ?s1) < unat (CBOR_UNSIGNED_SIZE n)"
    by (simp add: o(2) sz1 unat_unsigned_size)
  then have "poisoned (prepend_unsigned ?s1 n)" by (rule prepend_unsigned_no_room)
  then show ?thesis by (rule prepend_data_poisoned)
qed


subsection \<open>Headers with a major type\<close>

lemma or_major_type_mem:
  "buffer s = Some q \<Longrightarrow> mem (or_major_type s T) = (mem s)(q := mem s q OR word_of_int T)"
  by (simp add: or_major_type_def)

lemma typed_header:
  assumes w: "within buf s" and room: "unat (CBOR_UNSIGNED_SIZE v) \<le> unat (buffer_size s)"
    and q: "q = buf + unat (buffer_size s) - unat (CBOR_UNSIGNED_SIZE v)"
    and m: "m = mem (or_major_type (prepend_unsigned s v) T)"
    and T: "(word_of_int T :: uint8_t) AND 0x1F = 0" "(word_of_int T :: uint8_t) AND 0xE0 = word_of_int T"
      "uint (word_of_int T :: uint8_t) = T"
    and n: "unat (CBOR_UNSIGNED_SIZE v) \<le> unat n"
  shows "cbor_read_unsigned (reader_on m q n) x =
           (if v < 24 then CBOR_SIZE_1 else uint (jump_byte v), v,
            reader_on m (q + unat (CBOR_UNSIGNED_SIZE v)) (n - CBOR_UNSIGNED_SIZE v))"
    and "cbor_read_next (reader_on m q n) = (T, reader_on m q n)"
    and "buf + unat (buffer_size s) \<le> a \<Longrightarrow> m a = mem s a"
proof -
  let ?s1 = "prepend_unsigned s v"
  have b: "buffer s = Some (buf + unat (buffer_size s))" using w by (simp add: within_def)
  have le: "unat (buffer_size s) \<le> buf + unat (buffer_size s)" by simp
  have r: "length_to_copy v < buffer_size s" using room by (simp add: room_iff)
  note pw = prepend_unsigned_within [OF w room]
  have b1: "buffer ?s1 = Some q" by (simp add: pw(3) q)
  have m': "m = (mem ?s1)(q := mem ?s1 q OR word_of_int T)"
    by (simp add: m or_major_type_mem [OF b1])
  show "cbor_read_unsigned (reader_on m q n) x =
           (if v < 24 then CBOR_SIZE_1 else uint (jump_byte v), v,
            reader_on m (q + unat (CBOR_UNSIGNED_SIZE v)) (n - CBOR_UNSIGNED_SIZE v))"
    by (rule read_written_header [OF w room T(1) q m' n])
  have pos: "0 < unat (CBOR_UNSIGNED_SIZE v)" by (rule unsigned_size_pos)
  have nz: "n \<noteq> 0" using n pos by (auto simp: unat_eq_0 [symmetric] simp del: unat_eq_0)
  have "mem ?s1 q = jump_byte v"
    by (simp add: prepend_unsigned_room(3) [OF b le r] q)
  then have "m q = jump_byte v OR word_of_int T" by (simp add: m')
  then have "uint (m q) AND 0xE0 = T"
    by (simp only: initial_byte_high [OF uint_jump_byte_less T(2)] T(3))
  then show "cbor_read_next (reader_on m q n) = (T, reader_on m q n)"
    using nz by (simp add: cbor_read_next_def reader_on_simps)
  show "m a = mem s a" if "buf + unat (buffer_size s) \<le> a"
  proof -
    have "a \<noteq> q" using that room pos by (simp add: q)
    moreover have "a \<noteq> buf + unat (buffer_size s) - unat (CBOR_UNSIGNED_SIZE v)"
      using that room pos by simp
    moreover have "\<not> a < buf + unat (buffer_size s)" using that by simp
    ultimately show ?thesis
      by (simp add: m' prepend_unsigned_room(3) [OF b le r])
  qed
qed

lemma major_type_bits:
  "(word_of_int CBOR_MAJOR_TYPE_BYTE_STRING :: uint8_t) AND 0x1F = 0"
  "(word_of_int CBOR_MAJOR_TYPE_BYTE_STRING :: uint8_t) AND 0xE0 = word_of_int CBOR_MAJOR_TYPE_BYTE_STRING"
  "uint (word_of_int CBOR_MAJOR_TYPE_BYTE_STRING :: uint8_t) = CBOR_MAJOR_TYPE_BYTE_STRING"
  "(word_of_int CBOR_MAJOR_TYPE_ARRAY :: uint8_t) AND 0x1F = 0"
  "(word_of_int CBOR_MAJOR_TYPE_ARRAY :: uint8_t) AND 0xE0 = word_of_int CBOR_MAJOR_TYPE_ARRAY"
  "uint (word_of_int CBOR_MAJOR_TYPE_ARRAY :: uint8_t) = CBOR_MAJOR_TYPE_ARRAY"
  "(word_of_int CBOR_MAJOR_TYPE_MAP :: uint8_t) AND 0x1F = 0"
  "(word_of_int CBOR_MAJOR_TYPE_MAP :: uint8_t) AND 0xE0 = word_of_int CBOR_MAJOR_TYPE_MAP"
  "uint (word_of_int CBOR_MAJOR_TYPE_MAP :: uint8_t) = CBOR_MAJOR_TYPE_MAP"
  by (simp_all add: CBOR_MAJOR_TYPE_BYTE_STRING_def CBOR_MAJOR_TYPE_ARRAY_def CBOR_MAJOR_TYPE_MAP_def)

lemma or_major_type_increment_mem:
  "mem (or_major_type (increment s) T) = mem (or_major_type s T)"
  by (simp add: or_major_type_def increment_fields)

lemma wrap_data_mem:
  "buffer (prepend_unsigned s n) \<noteq> None \<Longrightarrow>
     mem (cbor_wrap_data s n) = mem (or_major_type (prepend_unsigned s n) CBOR_MAJOR_TYPE_BYTE_STRING)"
proof -
  assume "buffer (prepend_unsigned s n) \<noteq> None"
  then have "buffer (cbor_prepend_unsigned s n) \<noteq> None"
    by (simp add: cbor_prepend_unsigned_fields)
  then have "cbor_wrap_data s n = or_major_type (cbor_prepend_unsigned s n) CBOR_MAJOR_TYPE_BYTE_STRING"
    by (auto simp: cbor_wrap_data_def Let_def)
  then show ?thesis
    by (simp add: cbor_prepend_unsigned_def or_major_type_increment_mem)
qed

lemma not_above_size_max: "\<not> SIZE_MAX < (v :: uint64_t)"
proof -
  have "SIZE_MAX = - 1" by (simp add: SIZE_MAX_def)
  moreover have "v \<le> - 1" by (rule word_n1_ge)
  ultimately show ?thesis by (simp only: not_less)
qed

lemma read_string_success:
  assumes "cbor_read_unsigned r 0 = (c, v, r')" and "c \<noteq> CBOR_SIZE_NONE"
    and "\<not> cbor_size r' < v"
  shows "read_byte_or_text_string r sz =
           (Some (cbor r'), v, r'\<lparr>cbor := cbor r' + unat v, cbor_size := cbor_size r' - v\<rparr>)"
  using assms by (simp add: read_byte_or_text_string_def not_above_size_max)

subsection \<open>Closing a container\<close>

lemma odd_count_iff: "c AND 1 \<noteq> 0 \<longleftrightarrow> odd (unat c)" for c :: size_t
proof -
  have "c AND 1 = c mod 2" by (rule and_one_eq)
  moreover have "unat (c mod 2) = unat c mod 2" by (simp add: unat_mod_distrib)
  ultimately have "unat (c AND 1) = unat c mod 2" by simp
  then show ?thesis by (auto simp: unat_eq_0 [symmetric] odd_iff_mod_2_eq_one simp del: unat_eq_0)
qed

lemma half_count: "unat c = 2 * k \<Longrightarrow> drop_bit 1 c = (of_nat k :: size_t)" for c :: size_t
proof -
  assume c: "unat c = 2 * k"
  have "unat (drop_bit 1 c) = drop_bit 1 (unat c)" by (rule unat_drop_bit_eq)
  then have "unat (drop_bit 1 c) = k" by (simp only: c drop_bit_eq_div) simp
  then have "of_nat (unat (drop_bit 1 c)) = (of_nat k :: size_t)" by simp
  then show ?thesis by simp
qed

lemma close_container_fields:
  "buffer (close_container s) = buffer s"
  "buffer_size (close_container s) = buffer_size s"
  "mem (close_container s) = mem s"
  "nesting_depth (close_container s) = nesting_depth s + 1"
  by (simp_all add: close_container_def Let_def)

lemma read_count_success:
  assumes "cbor_read_unsigned r 0 = (c, v, r')" and "c \<noteq> CBOR_SIZE_NONE"
  shows "read_array_or_map r = (v, r')"
proof -
  have "v = SIZE_MAX" if "SIZE_MAX \<le> v"
    using that not_above_size_max [of v] by simp
  then show ?thesis using assms by (auto simp: read_array_or_map_def)
qed

lemma major_type_bits_text:
  "(word_of_int CBOR_MAJOR_TYPE_TEXT_STRING :: uint8_t) AND 0x1F = 0"
  "(word_of_int CBOR_MAJOR_TYPE_TEXT_STRING :: uint8_t) AND 0xE0 = word_of_int CBOR_MAJOR_TYPE_TEXT_STRING"
  "uint (word_of_int CBOR_MAJOR_TYPE_TEXT_STRING :: uint8_t) = CBOR_MAJOR_TYPE_TEXT_STRING"
  by (simp_all add: CBOR_MAJOR_TYPE_TEXT_STRING_def)

lemma wrap_array_room:
  assumes w: "within buf s" and d: "nesting_depth s \<noteq> CBOR_MAX_NESTING"
    and v: "v = objects s (unat (nesting_depth s))"
    and room: "unat (CBOR_UNSIGNED_SIZE v) \<le> unat (buffer_size s)"
    and q: "q = buf + unat (buffer_size s) - unat (CBOR_UNSIGNED_SIZE v)"
    and n: "unat (CBOR_UNSIGNED_SIZE v) \<le> unat n"
  shows "fst (cbor_wrap_array s) = Some q"
    and "buffer (snd (cbor_wrap_array s)) = Some q"
    and "nesting_depth (snd (cbor_wrap_array s)) = nesting_depth s + 1"
    and "cbor_read_array (reader_on (mem (snd (cbor_wrap_array s))) q n) =
           (v, reader_on (mem (snd (cbor_wrap_array s))) (q + unat (CBOR_UNSIGNED_SIZE v))
                 (n - CBOR_UNSIGNED_SIZE v))"
proof -
  let ?s1 = "prepend_unsigned s v"
  let ?s2 = "close_container (or_major_type ?s1 CBOR_MAJOR_TYPE_ARRAY)"
  note pw = prepend_unsigned_within [OF w room]
  have b1: "buffer ?s1 = Some q" by (simp add: pw(3) q)
  have eq: "cbor_wrap_array s = (Some q, ?s2)"
    using d b1 by (simp add: cbor_wrap_array_def Let_def v close_container_fields
        or_major_type_fields)
  have m: "mem ?s2 = mem (or_major_type ?s1 CBOR_MAJOR_TYPE_ARRAY)"
    by (simp add: close_container_fields)
  note th = typed_header [OF w room q m major_type_bits(4,5,6) n]
  show "fst (cbor_wrap_array s) = Some q" by (simp add: eq)
  show "buffer (snd (cbor_wrap_array s)) = Some q"
    by (simp add: eq close_container_fields or_major_type_fields b1)
  show "nesting_depth (snd (cbor_wrap_array s)) = nesting_depth s + 1"
    by (simp add: eq close_container_fields or_major_type_fields prepend_unsigned_fields)
  show "cbor_read_array (reader_on (mem (snd (cbor_wrap_array s))) q n) =
           (v, reader_on (mem (snd (cbor_wrap_array s))) (q + unat (CBOR_UNSIGNED_SIZE v))
                 (n - CBOR_UNSIGNED_SIZE v))"
    using read_count_success [OF th(1) [of 0] size_class_not_none]
    by (simp add: eq cbor_read_array_def th(2))
qed

lemma wrap_map_room:
  assumes w: "within buf s" and d: "nesting_depth s \<noteq> CBOR_MAX_NESTING"
    and c: "unat (objects s (unat (nesting_depth s))) = 2 * k"
    and v: "v = (of_nat k :: size_t)"
    and room: "unat (CBOR_UNSIGNED_SIZE v) \<le> unat (buffer_size s)"
    and q: "q = buf + unat (buffer_size s) - unat (CBOR_UNSIGNED_SIZE v)"
    and n: "unat (CBOR_UNSIGNED_SIZE v) \<le> unat n"
  shows "fst (cbor_wrap_map s) = Some q"
    and "buffer (snd (cbor_wrap_map s)) = Some q"
    and "nesting_depth (snd (cbor_wrap_map s)) = nesting_depth s + 1"
    and "cbor_read_next (reader_on (mem (snd (cbor_wrap_map s))) q n) =
           (CBOR_MAJOR_TYPE_MAP, reader_on (mem (snd (cbor_wrap_map s))) q n)"
    and "cbor_read_map (reader_on (mem (snd (cbor_wrap_map s))) q n) =
           (v, reader_on (mem (snd (cbor_wrap_map s))) (q + unat (CBOR_UNSIGNED_SIZE v))
                 (n - CBOR_UNSIGNED_SIZE v))"
proof -
  let ?c = "objects s (unat (nesting_depth s))"
  let ?s1 = "prepend_unsigned s v"
  let ?s2 = "close_container (or_major_type ?s1 CBOR_MAJOR_TYPE_MAP)"
  have even: "\<not> ?c AND 1 \<noteq> 0" by (simp only: odd_count_iff c) simp
  have half: "drop_bit 1 ?c = v" using half_count [OF c] by (simp add: v)
  note pw = prepend_unsigned_within [OF w room]
  have b1: "buffer ?s1 = Some q" by (simp add: pw(3) q)
  have eq: "cbor_wrap_map s = (Some q, ?s2)"
    using d b1 even by (simp add: cbor_wrap_map_def Let_def half close_container_fields
        or_major_type_fields del: One_nat_def)
  have m: "mem ?s2 = mem (or_major_type ?s1 CBOR_MAJOR_TYPE_MAP)"
    by (simp add: close_container_fields)
  note th = typed_header [OF w room q m major_type_bits(7,8,9) n]
  show "fst (cbor_wrap_map s) = Some q" by (simp add: eq)
  show "buffer (snd (cbor_wrap_map s)) = Some q"
    by (simp add: eq close_container_fields or_major_type_fields b1)
  show "nesting_depth (snd (cbor_wrap_map s)) = nesting_depth s + 1"
    by (simp add: eq close_container_fields or_major_type_fields prepend_unsigned_fields)
  show "cbor_read_next (reader_on (mem (snd (cbor_wrap_map s))) q n) =
           (CBOR_MAJOR_TYPE_MAP, reader_on (mem (snd (cbor_wrap_map s))) q n)"
    by (simp add: eq th(2))
  show "cbor_read_map (reader_on (mem (snd (cbor_wrap_map s))) q n) =
           (v, reader_on (mem (snd (cbor_wrap_map s))) (q + unat (CBOR_UNSIGNED_SIZE v))
                 (n - CBOR_UNSIGNED_SIZE v))"
    using read_count_success [OF th(1) [of 0] size_class_not_none]
    by (simp add: eq cbor_read_map_def th(2))
qed

lemma wrap_map_odd:
  assumes "odd (unat (objects s (unat (nesting_depth s))))"
  shows "cbor_wrap_map s = (None, s\<lparr>buffer := None, buffer_size := 0\<rparr>)"
  using assms by (simp add: cbor_wrap_map_def odd_count_iff [symmetric])

subsection \<open>Item calls\<close>

lemma same_counters_refl: "same_counters a a"
  by (simp add: same_counters_def)

lemma same_counters_trans: "same_counters a b \<Longrightarrow> same_counters b c \<Longrightarrow> same_counters a c"
  by (simp add: same_counters_def)

lemma same_counters_prepend_unsigned: "same_counters (prepend_unsigned s v) s"
  by (simp add: same_counters_def prepend_unsigned_fields)

lemma same_counters_prepend_object: "same_counters (prepend_object s ob n) s"
  by (simp add: same_counters_def prepend_object_def)

lemma same_counters_or_major_type: "same_counters (or_major_type s t) s"
  by (simp add: same_counters_def or_major_type_fields)

lemma same_counters_increment:
  "same_counters a b \<Longrightarrow> same_counters (increment a) (increment b)"
  by (simp add: same_counters_def increment_def)

lemma cbor_prepend_unsigned_step:
  assumes "within buf s" and "unat (CBOR_UNSIGNED_SIZE v) \<le> unat (buffer_size s)"
  shows "item_step buf s (unat (CBOR_UNSIGNED_SIZE v)) (cbor_prepend_unsigned s v)"
  using prepend_unsigned_within(1,2) [OF assms]
  by (simp add: item_step_def cbor_prepend_unsigned_def within_increment increment_fields
      same_counters_increment same_counters_prepend_unsigned)

lemma cbor_prepend_object_step:
  assumes "within buf s" and "unat n \<le> unat (buffer_size s)"
  shows "item_step buf s (unat n) (cbor_prepend_object s ob n)"
  using prepend_object_within(1,2) [OF assms, of ob]
  by (simp add: item_step_def cbor_prepend_object_def within_increment increment_fields
      same_counters_increment same_counters_prepend_object)

lemma string_step:
  assumes w: "within buf s" and room: "unat (CBOR_UNSIGNED_SIZE n) + unat n \<le> unat (buffer_size s)"
    and s': "s' = (let s1 = cbor_prepend_unsigned (prepend_object s d n) n
                   in if buffer s1 = None then s1 else or_major_type s1 T)"
  shows "item_step buf s (unat (CBOR_UNSIGNED_SIZE n) + unat n) s'"
proof -
  let ?s1 = "prepend_object s d n"
  let ?s2 = "cbor_prepend_unsigned ?s1 n"
  have r0: "unat n \<le> unat (buffer_size s)" using room by simp
  note o = prepend_object_within(1,2) [OF w r0, of d]
  have r1: "unat (CBOR_UNSIGNED_SIZE n) \<le> unat (buffer_size ?s1)"
    using room by (simp add: o(2))
  have st: "item_step buf ?s1 (unat (CBOR_UNSIGNED_SIZE n)) ?s2"
    by (rule cbor_prepend_unsigned_step [OF o(1) r1])
  then have "buffer ?s2 \<noteq> None" by (simp add: item_step_def within_def)
  then have eq: "s' = or_major_type ?s2 T" by (auto simp: s' Let_def)
  have "same_counters ?s2 (increment s)"
    using st same_counters_increment [OF same_counters_prepend_object [of s d n]]
    by (auto simp: item_step_def intro: same_counters_trans)
  then have "same_counters s' (increment s)"
    unfolding eq by (rule same_counters_trans [OF same_counters_or_major_type])
  moreover have "within buf s'" using st by (simp add: eq within_or_major_type item_step_def)
  moreover have "unat (buffer_size s') = unat (buffer_size s) - (unat (CBOR_UNSIGNED_SIZE n) + unat n)"
    using st by (simp add: eq or_major_type_fields item_step_def o(2))
  ultimately show ?thesis by (simp add: item_step_def)
qed

lemma prepend_simple_step:
  assumes "within buf s" and "1 \<le> unat (buffer_size s)"
  shows "item_step buf s 1 (prepend_simple s v)"
proof -
  have nz: "buffer_size s \<noteq> 0" using assms(2) by auto
  have b: "buffer s = Some (buf + unat (buffer_size s))" using assms(1) by (simp add: within_def)
  have one: "(1 :: size_t) \<le> buffer_size s" using assms(2) by (simp add: word_le_nat_alt)
  let ?s1 = "s\<lparr>buffer := ptr_sub (buffer s) 1, buffer_size := buffer_size s - 1,
                mem := poke (mem s) (ptr_sub (buffer s) 1) (word_of_int v)\<rparr>"
  have eq: "prepend_simple s v = increment ?s1" using nz by (simp add: prepend_simple_def)
  have "within buf ?s1" using assms(2) by (simp add: within_def b unat_sub [OF one])
  moreover have "unat (buffer_size ?s1) = unat (buffer_size s) - 1"
    by (simp add: unat_sub [OF one])
  moreover have "same_counters ?s1 s" by (simp add: same_counters_def)
  ultimately show ?thesis
    by (simp add: item_step_def eq within_increment increment_fields same_counters_increment)
qed

lemma item_call_step:
  assumes "item_call c" and "within buf s" and "call_size c \<le> unat (buffer_size s)"
  shows "item_step buf s (call_size c) (call c s)"
proof (cases c)
  case (Prepend_unsigned v)
  then show ?thesis using assms by (simp add: cbor_prepend_unsigned_step)
next
  case (Prepend_data d n)
  then show ?thesis
    using assms string_step [of buf s n "cbor_prepend_data s d n" d CBOR_MAJOR_TYPE_BYTE_STRING]
    by (simp add: cbor_prepend_data_def cbor_wrap_data_def)
next
  case (Prepend_text t n)
  then show ?thesis
    using assms string_step [of buf s n "cbor_prepend_text s t n" t CBOR_MAJOR_TYPE_TEXT_STRING]
    by (simp add: cbor_prepend_text_def)
next
  case (Prepend_object ob n)
  then show ?thesis using assms by (simp add: cbor_prepend_object_step)
next
  case Prepend_null
  then show ?thesis using assms by (simp add: cbor_prepend_null_def prepend_simple_step del: One_nat_def)
next
  case Prepend_undefined
  then show ?thesis using assms by (simp add: cbor_prepend_undefined_def prepend_simple_step del: One_nat_def)
next
  case (Prepend_bool b)
  then show ?thesis using assms by (simp add: cbor_prepend_bool_def prepend_simple_step del: One_nat_def)
qed (use assms in simp_all)

lemma item_call_size_pos: "item_call c \<Longrightarrow> 1 \<le> call_size c"
  by (cases c) (simp_all add: unat_unsigned_size unat_gt_0 Suc_le_eq)

lemma item_calls_length: "list_all item_call cs \<Longrightarrow> length cs \<le> session_size cs"
proof (induction cs)
  case Nil
  then show ?case by (simp add: session_size_def)
next
  case (Cons c cs)
  then show ?case using item_call_size_pos [of c] by (simp add: session_size_def)
qed

lemma item_calls_run:
  assumes "list_all item_call cs" and "within buf s"
    and "session_size cs \<le> unat (buffer_size s)"
    and "nesting_depth s \<noteq> CBOR_MAX_NESTING"
  shows "within buf (calls cs s)
     \<and> unat (buffer_size (calls cs s)) = unat (buffer_size s) - session_size cs
     \<and> nesting_depth (calls cs s) = nesting_depth s
     \<and> objects (calls cs s) (unat (nesting_depth s))
         = objects s (unat (nesting_depth s)) + of_nat (length cs)"
  using assms
proof (induction cs arbitrary: s)
  case Nil
  then show ?case by (simp add: session_size_def)
next
  case (Cons c cs)
  have ic: "item_call c" and rest: "list_all item_call cs" using Cons.prems(1) by simp_all
  have sz: "session_size (c # cs) = call_size c + session_size cs"
    by (simp add: session_size_def)
  have r: "call_size c \<le> unat (buffer_size s)" using Cons.prems(3) by (simp add: sz)
  note st = item_call_step [OF ic Cons.prems(2) r, unfolded item_step_def same_counters_def]
  let ?s1 = "call c s"
  have w1: "within buf ?s1" using st by simp
  have b1: "unat (buffer_size ?s1) = unat (buffer_size s) - call_size c" using st by simp
  have d1: "nesting_depth ?s1 = nesting_depth s" using st by (simp add: increment_fields)
  have o1: "objects ?s1 (unat (nesting_depth s)) = objects s (unat (nesting_depth s)) + 1"
    using st Cons.prems(4) by (simp add: increment_def)
  have r1: "session_size cs \<le> unat (buffer_size ?s1)"
    using Cons.prems(3) by (simp add: b1 sz)
  have n1: "nesting_depth ?s1 \<noteq> CBOR_MAX_NESTING" using Cons.prems(4) by (simp add: d1)
  note ih = Cons.IH [OF rest w1 r1 n1]
  show ?case using ih by (simp add: b1 d1 o1 sz)
qed

subsection \<open>Container sessions\<close>

lemma calls_append: "calls (xs @ ys) s = calls ys (calls xs s)"
  by (induction xs arbitrary: s) simp_all

lemma open_array_init:
  "within buf (snd (cbor_open_array (cbor_init_writer s buf n)))"
  "buffer_size (snd (cbor_open_array (cbor_init_writer s buf n))) = n"
  "nesting_depth (snd (cbor_open_array (cbor_init_writer s buf n))) = 7"
  "objects (snd (cbor_open_array (cbor_init_writer s buf n))) 7 = 0"
  by (simp_all add: cbor_open_array_def cbor_init_writer_def within_def CBOR_MAX_NESTING_def)

lemma unat_of_nat_small:
  "k \<le> unat (b :: size_t) \<Longrightarrow> unat (of_nat k :: size_t) = k"
proof -
  assume "k \<le> unat b"
  then have "k < 2 ^ 64" using unsigned_less [of b, where ?'a = nat] by simp
  then show ?thesis by (simp add: unat_of_nat del: of_nat_add)
qed

lemma array_session:
  assumes items: "list_all item_call cs"
    and room: "session_size cs + unat (CBOR_UNSIGNED_SIZE (of_nat (length cs))) \<le> unat buf_size"
  shows "let w = calls (Open_array # cs @ [Wrap_array]) (cbor_init_writer s buf buf_size);
             used = session_size cs + unat (CBOR_UNSIGNED_SIZE (of_nat (length cs)));
             start = buf + unat buf_size - used
         in cbor_stop_writer w = Some start
            \<and> unat (fst (cbor_read_array (reader_on (mem w) start (of_nat used)))) = length cs"
proof -
  define s1 where "s1 = snd (cbor_open_array (cbor_init_writer s buf buf_size))"
  define s2 where "s2 = calls cs s1"
  define w where "w = snd (cbor_wrap_array s2)"
  define v :: size_t where "v = of_nat (length cs)"
  define H where "H = unat (CBOR_UNSIGNED_SIZE v)"
  define S where "S = session_size cs"
  define B where "B = unat buf_size"
  define U :: size_t where "U = of_nat (S + H)"
  have SH: "S + H \<le> B" using room by (simp add: S_def H_def B_def v_def)
  note o = open_array_init [where buf = buf and s = s and n = buf_size, folded s1_def]
  have r1: "session_size cs \<le> unat (buffer_size s1)"
    using SH by (simp add: o(2) S_def B_def)
  have d1: "nesting_depth s1 \<noteq> CBOR_MAX_NESTING" by (simp add: o(3) CBOR_MAX_NESTING_def)
  note run = item_calls_run [OF items o(1) r1 d1, folded s2_def]
  have w2: "within buf s2" using run by simp
  have b2: "unat (buffer_size s2) = B - S" using run by (simp add: o(2) S_def B_def)
  have d2: "nesting_depth s2 = 7" using run by (simp add: o(3))
  have c2: "objects s2 (unat (nesting_depth s2)) = v" using run by (simp add: o(3,4) d2 v_def)
  have d2': "nesting_depth s2 \<noteq> CBOR_MAX_NESTING" by (simp add: d2 CBOR_MAX_NESTING_def)
  have room2: "unat (CBOR_UNSIGNED_SIZE v) \<le> unat (buffer_size s2)"
    using SH by (simp add: b2 H_def)
  have q: "buf + B - (S + H) = buf + unat (buffer_size s2) - unat (CBOR_UNSIGNED_SIZE v)"
    using SH by (simp add: b2 H_def)
  have U: "unat U = S + H" unfolding U_def by (rule unat_of_nat_small [OF SH [unfolded B_def]])
  have n: "unat (CBOR_UNSIGNED_SIZE v) \<le> unat U" by (simp add: U H_def)
  note wr = wrap_array_room [OF w2 d2' c2 [symmetric] room2 q n, folded w_def]
  have k: "unat v = length cs"
    unfolding v_def using item_calls_length [OF items] SH
    by (intro unat_of_nat_small [of _ buf_size]) (simp add: S_def B_def)
  have top: "nesting_depth w = CBOR_MAX_NESTING" by (simp add: wr(3) d2 CBOR_MAX_NESTING_def)
  have stop: "cbor_stop_writer w = Some (buf + B - (S + H))"
    by (simp add: stop_at_top [OF top] wr(2))
  have rd: "unat (fst (cbor_read_array (reader_on (mem w) (buf + B - (S + H)) U))) = length cs"
    by (simp add: wr(4) k)
  have "calls (Open_array # cs @ [Wrap_array]) (cbor_init_writer s buf buf_size) = w"
    by (simp add: calls_append w_def s2_def s1_def)
  then show ?thesis
    unfolding Let_def using stop rd
    by (simp only: U_def S_def H_def B_def v_def)
qed

lemma map_session:
  assumes items: "list_all item_call cs" and pairs: "length cs = 2 * k"
    and room: "session_size cs + unat (CBOR_UNSIGNED_SIZE (of_nat k)) \<le> unat buf_size"
  shows "let w = calls (Open_map # cs @ [Wrap_map]) (cbor_init_writer s buf buf_size);
             used = session_size cs + unat (CBOR_UNSIGNED_SIZE (of_nat k));
             start = buf + unat buf_size - used
         in cbor_stop_writer w = Some start
            \<and> unat (fst (cbor_read_map (reader_on (mem w) start (of_nat used)))) = k"
proof -
  define s1 where "s1 = snd (cbor_open_array (cbor_init_writer s buf buf_size))"
  define s2 where "s2 = calls cs s1"
  define w where "w = snd (cbor_wrap_map s2)"
  define v :: size_t where "v = of_nat k"
  define H where "H = unat (CBOR_UNSIGNED_SIZE v)"
  define S where "S = session_size cs"
  define B where "B = unat buf_size"
  define U :: size_t where "U = of_nat (S + H)"
  have SH: "S + H \<le> B" using room by (simp add: S_def H_def B_def v_def)
  note o = open_array_init [where buf = buf and s = s and n = buf_size, folded s1_def]
  have r1: "session_size cs \<le> unat (buffer_size s1)"
    using SH by (simp add: o(2) S_def B_def)
  have d1: "nesting_depth s1 \<noteq> CBOR_MAX_NESTING" by (simp add: o(3) CBOR_MAX_NESTING_def)
  note run = item_calls_run [OF items o(1) r1 d1, folded s2_def]
  have w2: "within buf s2" using run by simp
  have b2: "unat (buffer_size s2) = B - S" using run by (simp add: o(2) S_def B_def)
  have d2: "nesting_depth s2 = 7" using run by (simp add: o(3))
  have len: "length cs \<le> unat buf_size"
    using item_calls_length [OF items] SH by (simp add: S_def B_def)
  have "objects s2 (unat (nesting_depth s2)) = of_nat (length cs)"
    using run by (simp add: o(3,4) d2)
  then have c2: "unat (objects s2 (unat (nesting_depth s2))) = 2 * k"
    using unat_of_nat_small [OF len] by (simp only: pairs)
  have d2': "nesting_depth s2 \<noteq> CBOR_MAX_NESTING" by (simp add: d2 CBOR_MAX_NESTING_def)
  have room2: "unat (CBOR_UNSIGNED_SIZE v) \<le> unat (buffer_size s2)"
    using SH by (simp add: b2 H_def)
  have q: "buf + B - (S + H) = buf + unat (buffer_size s2) - unat (CBOR_UNSIGNED_SIZE v)"
    using SH by (simp add: b2 H_def)
  have U: "unat U = S + H" unfolding U_def by (rule unat_of_nat_small [OF SH [unfolded B_def]])
  have n: "unat (CBOR_UNSIGNED_SIZE v) \<le> unat U" by (simp add: U H_def)
  note wr = wrap_map_room [OF w2 d2' c2 v_def room2 q n, folded w_def]
  have k: "unat v = k"
    unfolding v_def using len pairs by (intro unat_of_nat_small [of _ buf_size]) simp
  have top: "nesting_depth w = CBOR_MAX_NESTING" by (simp add: wr(3) d2 CBOR_MAX_NESTING_def)
  have stop: "cbor_stop_writer w = Some (buf + B - (S + H))"
    by (simp add: stop_at_top [OF top] wr(2))
  have rd: "unat (fst (cbor_read_map (reader_on (mem w) (buf + B - (S + H)) U))) = k"
    by (simp add: wr(5) k)
  have "calls (Open_map # cs @ [Wrap_map]) (cbor_init_writer s buf buf_size) = w"
    by (simp add: calls_append w_def s2_def s1_def cbor_open_map_def)
  then show ?thesis
    unfolding Let_def using stop rd
    by (simp only: U_def S_def H_def B_def v_def)
qed

section \<open>The claims\<close>

text \<open>
  Claim C4 (poison monotonicity). From a writer state with \<^verbatim>\<open>buffer == NULL\<close> and
  \<^verbatim>\<open>buffer_size == 0\<close>, whatever finite sequence of writer calls follows
  (prepend_unsigned, prepend_data, prepend_text, prepend_object, wrap_data, open_array,
  open_map, wrap_array, wrap_map, prepend_null, prepend_undefined, prepend_bool, with any
  arguments), \<^verbatim>\<open>cbor_stop_writer\<close> returns \<^verbatim>\<open>NULL\<close>.
\<close>

theorem poison_monotonicity:
  assumes "buffer s = None" and "buffer_size s = 0"
  shows "cbor_stop_writer (calls cs s) = None"
proof -
  from assms have "poisoned s" by (simp add: poisoned_def)
  then have "poisoned (calls cs s)" by (rule poisoned_calls)
  then show ?thesis by (rule poisoned_stop)
qed

theorem poison_monotonicity_witness:
  "buffer blank_writer = None \<and> buffer_size blank_writer = 0
   \<and> cbor_stop_writer
        (calls [Open_array, Prepend_unsigned 123, Prepend_null, Wrap_array] blank_writer) = None"
proof -
  have b: "buffer blank_writer = None" and z: "buffer_size blank_writer = 0"
    by (simp_all add: blank_writer_def)
  from poison_monotonicity [OF b z] b z show ?thesis by blast
qed

text \<open>
  Claim C8, as amended (peek on unsupported initial bytes). With at least one byte
  remaining, \<^verbatim>\<open>cbor_read_next\<close> reports \<^verbatim>\<open>CBOR_MAJOR_TYPE_SIMPLE\<close> (0xE0) when the next
  byte is 0xF9, 0xFA or 0xFB; when the next byte is a tag initial byte in 0xC0..0xDF it
  reports 0xC0, which is not an enumerator of \<^verbatim>\<open>cbor_major_type_t\<close> and differs from
  \<^verbatim>\<open>CBOR_MAJOR_TYPE_NONE\<close>; it reports \<^verbatim>\<open>CBOR_MAJOR_TYPE_NONE\<close> when zero bytes remain;
  and it never changes the reader state.
\<close>

theorem read_next_peek:
  "(cbor_size r \<noteq> 0 \<and> input r (cbor r) \<in> {0xF9, 0xFA, 0xFB}
      \<longrightarrow> fst (cbor_read_next r) = CBOR_MAJOR_TYPE_SIMPLE)
   \<and> (cbor_size r \<noteq> 0 \<and> 0xC0 \<le> input r (cbor r) \<and> input r (cbor r) \<le> 0xDF
      \<longrightarrow> fst (cbor_read_next r) = 0xC0 \<and> fst (cbor_read_next r) \<noteq> CBOR_MAJOR_TYPE_NONE)
   \<and> (cbor_size r = 0 \<longrightarrow> fst (cbor_read_next r) = CBOR_MAJOR_TYPE_NONE)
   \<and> snd (cbor_read_next r) = r"
proof -
  have floats: "fst (cbor_read_next r) = CBOR_MAJOR_TYPE_SIMPLE"
    if "cbor_size r \<noteq> 0" "input r (cbor r) \<in> {0xF9, 0xFA, 0xFB}"
    using that by (auto simp: read_next_fst CBOR_MAJOR_TYPE_SIMPLE_def)
  have tags: "fst (cbor_read_next r) = 0xC0"
    if "cbor_size r \<noteq> 0" "0xC0 \<le> input r (cbor r)" "input r (cbor r) \<le> 0xDF"
  proof -
    have "192 \<le> uint (input r (cbor r))" "uint (input r (cbor r)) \<le> 223"
      using that(2,3) by (simp_all add: word_le_def)
    then have "uint (input r (cbor r)) div 32 = 6" by simp
    then show ?thesis using that(1) by (simp add: read_next_fst)
  qed
  show ?thesis
    using floats tags by (simp add: read_next_snd read_next_fst CBOR_MAJOR_TYPE_NONE_def)
qed

theorem read_next_peek_witness:
  "cbor_size tag_reader \<noteq> 0 \<and> 0xC0 \<le> input tag_reader (cbor tag_reader)
   \<and> input tag_reader (cbor tag_reader) \<le> 0xDF
   \<and> fst (cbor_read_next tag_reader) = 0xC0
   \<and> snd (cbor_read_next tag_reader) = tag_reader"
  using read_next_peek [of tag_reader] by (simp add: tag_reader_def)

text \<open>The claim as stated fails: on the tag initial byte 0xC0 the result is not
  \<^verbatim>\<open>CBOR_MAJOR_TYPE_NONE\<close>.\<close>

theorem read_next_tag_counterexample:
  "cbor_size tag_reader \<noteq> 0 \<and> input tag_reader (cbor tag_reader) = 0xC0
   \<and> fst (cbor_read_next tag_reader) \<noteq> CBOR_MAJOR_TYPE_NONE"
  by (simp add: tag_reader_def cbor_read_next_def CBOR_MAJOR_TYPE_NONE_def)

text \<open>
  Claim C3, as amended (errors of the typed string reads). When \<^verbatim>\<open>cbor_read_data\<close>
  (respectively \<^verbatim>\<open>cbor_read_text\<close>) returns \<^verbatim>\<open>NULL\<close> because the next major type is
  not byte string (respectively text string), or because no byte remains, the reader's
  cursor and remaining-byte count are the same after the call as before it. When it
  returns \<^verbatim>\<open>NULL\<close> after the type check has passed (the length header is truncated or
  carries a reserved size field, or the payload is longer than the remaining input), the
  cursor has advanced by the 1, 2, 3, 5 or 9 bytes of the header that were consumed and the
  remaining-byte count has decreased by the same amount; \<^verbatim>\<open>*size\<close> is not written.
\<close>

theorem read_string_error_cursor:
  "(fst (cbor_read_next r) \<noteq> CBOR_MAJOR_TYPE_BYTE_STRING \<longrightarrow>
      cbor_read_data r sz = (None, sz, r))
   \<and> (fst (cbor_read_next r) = CBOR_MAJOR_TYPE_BYTE_STRING \<and> fst (cbor_read_data r sz) = None \<longrightarrow>
      (\<exists>n\<in>{1, 2, 3, 5, 9}. cbor_read_data r sz =
         (None, sz, r\<lparr>cbor := cbor r + n, cbor_size := cbor_size r - of_nat n\<rparr>)))
   \<and> (fst (cbor_read_next r) \<noteq> CBOR_MAJOR_TYPE_TEXT_STRING \<longrightarrow>
      cbor_read_text r sz = (None, sz, r))
   \<and> (fst (cbor_read_next r) = CBOR_MAJOR_TYPE_TEXT_STRING \<and> fst (cbor_read_text r sz) = None \<longrightarrow>
      (\<exists>n\<in>{1, 2, 3, 5, 9}. cbor_read_text r sz =
         (None, sz, r\<lparr>cbor := cbor r + n, cbor_size := cbor_size r - of_nat n\<rparr>)))"
proof (intro conjI impI)
  assume "fst (cbor_read_next r) \<noteq> CBOR_MAJOR_TYPE_BYTE_STRING"
  then show "cbor_read_data r sz = (None, sz, r)"
    by (simp add: cbor_read_data_def split_beta read_next_snd)
next
  assume "fst (cbor_read_next r) \<noteq> CBOR_MAJOR_TYPE_TEXT_STRING"
  then show "cbor_read_text r sz = (None, sz, r)"
    by (simp add: cbor_read_text_def split_beta read_next_snd)
next
  assume a: "fst (cbor_read_next r) = CBOR_MAJOR_TYPE_BYTE_STRING \<and> fst (cbor_read_data r sz) = None"
  then have eq: "cbor_read_data r sz = read_byte_or_text_string r sz"
    by (simp add: cbor_read_data_def split_beta read_next_snd)
  have "cbor_size r \<noteq> 0"
    using a by (intro read_next_nonempty)
      (simp add: CBOR_MAJOR_TYPE_BYTE_STRING_def CBOR_MAJOR_TYPE_NONE_def)
  from read_string_state [OF this, of sz] a eq
  show "\<exists>n\<in>{1, 2, 3, 5, 9}. cbor_read_data r sz =
         (None, sz, r\<lparr>cbor := cbor r + n, cbor_size := cbor_size r - of_nat n\<rparr>)"
    by simp
next
  assume a: "fst (cbor_read_next r) = CBOR_MAJOR_TYPE_TEXT_STRING \<and> fst (cbor_read_text r sz) = None"
  then have eq: "cbor_read_text r sz = read_byte_or_text_string r sz"
    by (simp add: cbor_read_text_def split_beta read_next_snd)
  have "cbor_size r \<noteq> 0"
    using a by (intro read_next_nonempty)
      (simp add: CBOR_MAJOR_TYPE_TEXT_STRING_def CBOR_MAJOR_TYPE_NONE_def)
  from read_string_state [OF this, of sz] a eq
  show "\<exists>n\<in>{1, 2, 3, 5, 9}. cbor_read_text r sz =
         (None, sz, r\<lparr>cbor := cbor r + n, cbor_size := cbor_size r - of_nat n\<rparr>)"
    by simp
qed

theorem read_string_error_cursor_witness:
  "fst (cbor_read_next tag_reader) \<noteq> CBOR_MAJOR_TYPE_BYTE_STRING
   \<and> cbor_read_data tag_reader 0 = (None, 0, tag_reader)
   \<and> fst (cbor_read_next tag_reader) \<noteq> CBOR_MAJOR_TYPE_TEXT_STRING
   \<and> cbor_read_text tag_reader 0 = (None, 0, tag_reader)
   \<and> fst (cbor_read_next truncated_data_reader) = CBOR_MAJOR_TYPE_BYTE_STRING
   \<and> fst (cbor_read_data truncated_data_reader 0) = None
   \<and> (\<exists>n\<in>{1, 2, 3, 5, 9}. cbor_read_data truncated_data_reader 0 =
         (None, 0, truncated_data_reader\<lparr>cbor := cbor truncated_data_reader + n,
            cbor_size := cbor_size truncated_data_reader - of_nat n\<rparr>))
   \<and> fst (cbor_read_next truncated_text_reader) = CBOR_MAJOR_TYPE_TEXT_STRING
   \<and> fst (cbor_read_text truncated_text_reader 0) = None
   \<and> (\<exists>n\<in>{1, 2, 3, 5, 9}. cbor_read_text truncated_text_reader 0 =
         (None, 0, truncated_text_reader\<lparr>cbor := cbor truncated_text_reader + n,
            cbor_size := cbor_size truncated_text_reader - of_nat n\<rparr>))"
proof -
  have h1: "fst (cbor_read_next tag_reader) \<noteq> CBOR_MAJOR_TYPE_BYTE_STRING"
    and h2: "fst (cbor_read_next tag_reader) \<noteq> CBOR_MAJOR_TYPE_TEXT_STRING"
    by (simp_all add: tag_reader_def cbor_read_next_def CBOR_MAJOR_TYPE_BYTE_STRING_def
        CBOR_MAJOR_TYPE_TEXT_STRING_def)
  have h3: "fst (cbor_read_next truncated_data_reader) = CBOR_MAJOR_TYPE_BYTE_STRING"
    by (simp add: truncated_data_reader_def cbor_read_next_def CBOR_MAJOR_TYPE_BYTE_STRING_def)
  have h4: "fst (cbor_read_data truncated_data_reader 0) = None"
    by (simp add: truncated_data_run)
  have h5: "fst (cbor_read_next truncated_text_reader) = CBOR_MAJOR_TYPE_TEXT_STRING"
    by (simp add: truncated_text_reader_def cbor_read_next_def CBOR_MAJOR_TYPE_TEXT_STRING_def)
  have h6: "fst (cbor_read_text truncated_text_reader 0) = None"
    by (simp add: truncated_text_reader_def cbor_read_text_def cbor_read_next_def
      read_byte_or_text_string_def cbor_read_unsigned_def bytes_to_read_def Let_def
      CBOR_MAJOR_TYPE_TEXT_STRING_def CBOR_SIZE_1_def CBOR_SIZE_NONE_def SIZE_MAX_def)
  note c1 = read_string_error_cursor [of tag_reader 0, THEN conjunct1, THEN mp, OF h1]
  note c2 = read_string_error_cursor [of tag_reader 0, THEN conjunct2, THEN conjunct2,
      THEN conjunct1, THEN mp, OF h2]
  note c3 = read_string_error_cursor [of truncated_data_reader 0, THEN conjunct2,
      THEN conjunct1, THEN mp, OF conjI [OF h3 h4]]
  note c4 = read_string_error_cursor [of truncated_text_reader 0, THEN conjunct2,
      THEN conjunct2, THEN conjunct2, THEN mp, OF conjI [OF h5 h6]]
  show ?thesis by (intro conjI h1 h2 h3 h4 h5 h6 c1 c2 c3 c4)
qed

text \<open>The claim as stated fails: on a byte string header that announces five payload
  bytes with one byte left, \<^verbatim>\<open>cbor_read_data\<close> returns \<^verbatim>\<open>NULL\<close> and leaves the cursor
  two bytes further, with the remaining-byte count reduced from 3 to 1.\<close>

theorem read_data_truncated_counterexample:
  "fst (cbor_read_data truncated_data_reader 0) = None
   \<and> cbor (snd (snd (cbor_read_data truncated_data_reader 0))) = 2
   \<and> cbor truncated_data_reader = 0
   \<and> cbor_size (snd (snd (cbor_read_data truncated_data_reader 0))) = 1
   \<and> cbor_size truncated_data_reader = 3"
  by (simp add: truncated_data_run) (simp add: truncated_data_reader_def)

text \<open>
  Claim C9 (size class of an immediate argument). With at least one byte remaining and a
  low-5-bit field \<open>f < 24\<close> in the next byte, \<^verbatim>\<open>cbor_read_unsigned\<close> consumes exactly one
  byte, stores \<open>f\<close> in \<^verbatim>\<open>*value\<close> and returns \<^verbatim>\<open>CBOR_SIZE_1\<close>; with field 24 and one
  argument byte available it consumes two bytes, stores the argument byte and returns
  \<^verbatim>\<open>CBOR_SIZE_1\<close> as well, so the returned size class does not tell the two encodings
  apart.
\<close>

theorem read_unsigned_size_class:
  "(cbor_size r \<noteq> 0 \<and> input r (cbor r) AND 0x1F < 24 \<longrightarrow>
      cbor_read_unsigned r v =
        (CBOR_SIZE_1, ucast (input r (cbor r) AND 0x1F),
         r\<lparr>cbor := cbor r + 1, cbor_size := cbor_size r - 1\<rparr>))
   \<and> (2 \<le> cbor_size r \<and> input r (cbor r) AND 0x1F = 24 \<longrightarrow>
      cbor_read_unsigned r v =
        (CBOR_SIZE_1, ucast (input r (cbor r + 1)),
         r\<lparr>cbor := cbor r + 2, cbor_size := cbor_size r - 2\<rparr>))"
  using read_unsigned_immediate [of r v] read_unsigned_u8 [of r v] by blast

theorem read_unsigned_size_class_witness:
  "cbor_size immediate_reader \<noteq> 0
   \<and> input immediate_reader (cbor immediate_reader) AND 0x1F < 24
   \<and> fst (cbor_read_unsigned immediate_reader 0) = CBOR_SIZE_1
   \<and> fst (snd (cbor_read_unsigned immediate_reader 0)) = 0x17
   \<and> 2 \<le> cbor_size u8_reader
   \<and> input u8_reader (cbor u8_reader) AND 0x1F = 24
   \<and> fst (cbor_read_unsigned u8_reader 0) = CBOR_SIZE_1
   \<and> fst (snd (cbor_read_unsigned u8_reader 0)) = 0x7B"
  using read_unsigned_size_class [of immediate_reader 0]
    read_unsigned_size_class [of u8_reader 0]
  by (simp add: immediate_reader_def u8_reader_def)

text \<open>
  Claim C10 (zero-length object). For every writer state, also one with no free byte,
  \<^verbatim>\<open>cbor_prepend_object\<close> with \<^verbatim>\<open>object_size == 0\<close> leaves cursor, free-byte count and
  buffer contents as they are (so it does not poison), and where a container is open
  (\<^verbatim>\<open>nesting_depth\<close> is not \<^verbatim>\<open>CBOR_MAX_NESTING\<close>) the counter of the innermost open
  container is incremented by one.
\<close>

theorem prepend_object_zero_size:
  "buffer (cbor_prepend_object s ob 0) = buffer s
   \<and> buffer_size (cbor_prepend_object s ob 0) = buffer_size s
   \<and> mem (cbor_prepend_object s ob 0) = mem s
   \<and> nesting_depth (cbor_prepend_object s ob 0) = nesting_depth s
   \<and> (nesting_depth s \<noteq> CBOR_MAX_NESTING \<longrightarrow>
        objects (cbor_prepend_object s ob 0) (unat (nesting_depth s))
          = objects s (unat (nesting_depth s)) + 1)"
  by (simp add: cbor_prepend_object_def prepend_object_def increment_def)

theorem prepend_object_zero_size_witness:
  "nesting_depth full_writer \<noteq> CBOR_MAX_NESTING
   \<and> buffer (cbor_prepend_object full_writer [] 0) = Some 100
   \<and> buffer_size (cbor_prepend_object full_writer [] 0) = 0
   \<and> objects (cbor_prepend_object full_writer [] 0) 7 = 6"
  using prepend_object_zero_size [of full_writer "[]"]
  by (simp add: full_writer_def CBOR_MAX_NESTING_def)

text \<open>
  Claim C1 (round trip of unsigned integers, shortest form). For every 64-bit \<open>v\<close>: on a
  writer initialised on a buffer of at least 9 bytes, \<^verbatim>\<open>cbor_prepend_unsigned(v)\<close>
  followed by \<^verbatim>\<open>cbor_stop_writer\<close> yields the start of the output, which lies
  \<open>shortest_form_size v\<close> bytes below the end of the buffer (1, 2, 3, 5 or 9 bytes, as
  the table says); \<^verbatim>\<open>cbor_read_unsigned\<close> on these bytes does not fail, stores \<open>v\<close>
  and consumes all of them.
\<close>

theorem unsigned_roundtrip:
  assumes "9 \<le> buf_size"
  shows
    "cbor_stop_writer (cbor_prepend_unsigned (cbor_init_writer s buf buf_size) v)
       = Some (buf + unat buf_size - shortest_form_size v)
     \<and> unat (buffer_size (cbor_prepend_unsigned (cbor_init_writer s buf buf_size) v))
         = unat buf_size - shortest_form_size v
     \<and> fst (cbor_read_unsigned
              (reader_on (mem (cbor_prepend_unsigned (cbor_init_writer s buf buf_size) v))
                 (buf + unat buf_size - shortest_form_size v)
                 (of_nat (shortest_form_size v))) x) \<noteq> CBOR_SIZE_NONE
     \<and> fst (snd (cbor_read_unsigned
              (reader_on (mem (cbor_prepend_unsigned (cbor_init_writer s buf buf_size) v))
                 (buf + unat buf_size - shortest_form_size v)
                 (of_nat (shortest_form_size v))) x)) = v
     \<and> cbor (snd (snd (cbor_read_unsigned
              (reader_on (mem (cbor_prepend_unsigned (cbor_init_writer s buf buf_size) v))
                 (buf + unat buf_size - shortest_form_size v)
                 (of_nat (shortest_form_size v))) x))) = buf + unat buf_size"
proof -
  let ?s0 = "cbor_init_writer s buf buf_size"
  let ?w = "cbor_prepend_unsigned ?s0 v"
  let ?k = "shortest_form_size v"
  have nine: "9 \<le> unat buf_size" using assms by (simp add: word_le_nat_alt)
  have w0: "within buf ?s0" by (rule within_init)
  have room: "unat (CBOR_UNSIGNED_SIZE v) \<le> unat (buffer_size ?s0)"
    using nine shortest_form_size_bounds(2) [of v]
    by (simp add: init_fields unat_unsigned_size_table)
  note p = prepend_unsigned_within [OF w0 room]
  have stop: "cbor_stop_writer ?w = Some (buf + unat buf_size - ?k)"
    using p(3) by (simp add: stop_at_top cbor_prepend_unsigned_fields init_fields
        unat_unsigned_size_table)
  have size: "unat (buffer_size ?w) = unat buf_size - ?k"
    using p(2) by (simp add: cbor_prepend_unsigned_fields init_fields unat_unsigned_size_table)
  have k: "unat (of_nat ?k :: size_t) = ?k"
    using shortest_form_size_bounds(2) [of v] by (simp add: unat_of_nat)
  have rd: "cbor_read_unsigned (reader_on (mem ?w) (buf + unat buf_size - ?k) (of_nat ?k)) x =
      (if v < 24 then CBOR_SIZE_1 else uint (jump_byte v), v,
       reader_on (mem ?w) (buf + unat buf_size - ?k + unat (CBOR_UNSIGNED_SIZE v))
         (of_nat ?k - CBOR_UNSIGNED_SIZE v))"
    by (rule read_written_header [OF w0 room, where t = "0"])
       (simp_all add: init_fields unat_unsigned_size_table cbor_prepend_unsigned_fields k)
  have whole: "buf + unat buf_size - ?k + unat (CBOR_UNSIGNED_SIZE v) = buf + unat buf_size"
    using room by (simp add: init_fields unat_unsigned_size_table)
  show ?thesis
    by (simp only: stop size rd fst_conv snd_conv reader_on_simps whole size_class_not_none
        not_False_eq_True simp_thms)
qed

theorem unsigned_roundtrip_witness:
  "(9 :: size_t) \<le> 16
   \<and> cbor_stop_writer (cbor_prepend_unsigned (cbor_init_writer blank_writer 100 16) 0x1234)
       = Some 113
   \<and> shortest_form_size 0x1234 = 3
   \<and> fst (snd (cbor_read_unsigned
        (reader_on (mem (cbor_prepend_unsigned (cbor_init_writer blank_writer 100 16) 0x1234))
           113 3) 0)) = 0x1234"
  using unsigned_roundtrip [of 16 blank_writer 100 "0x1234" 0]
  by (simp add: shortest_form_size_def)

text \<open>
  Claim C6 (exact fit and one byte short). For every \<open>v\<close>, \<^verbatim>\<open>cbor_prepend_unsigned(v)\<close>
  on a writer whose buffer has exactly \<^verbatim>\<open>CBOR_UNSIGNED_SIZE(v)\<close> bytes succeeds and
  \<^verbatim>\<open>cbor_stop_writer\<close> returns the base address of the buffer; on a buffer one byte
  shorter the writer is poisoned and \<^verbatim>\<open>cbor_stop_writer\<close> returns \<^verbatim>\<open>NULL\<close>. The same
  holds for \<^verbatim>\<open>cbor_prepend_data\<close> of \<open>n\<close> bytes with \<^verbatim>\<open>CBOR_BYTE_STRING_SIZE(n)\<close>,
  where that size is representable in \<^verbatim>\<open>size_t\<close> (the sum of the macro does not wrap).
\<close>

theorem exact_fit_and_one_short:
  "cbor_stop_writer (cbor_prepend_unsigned (cbor_init_writer s buf (CBOR_UNSIGNED_SIZE v)) v)
     = Some buf
   \<and> poisoned (cbor_prepend_unsigned (cbor_init_writer s buf (CBOR_UNSIGNED_SIZE v - 1)) v)
   \<and> cbor_stop_writer (cbor_prepend_unsigned (cbor_init_writer s buf (CBOR_UNSIGNED_SIZE v - 1)) v)
       = None
   \<and> (unat (CBOR_UNSIGNED_SIZE n) + unat n < 2 ^ 64 \<longrightarrow>
        cbor_stop_writer (cbor_prepend_data (cbor_init_writer s buf (CBOR_BYTE_STRING_SIZE n)) d n)
          = Some buf
        \<and> poisoned (cbor_prepend_data (cbor_init_writer s buf (CBOR_BYTE_STRING_SIZE n - 1)) d n)
        \<and> cbor_stop_writer
            (cbor_prepend_data (cbor_init_writer s buf (CBOR_BYTE_STRING_SIZE n - 1)) d n) = None)"
  by (intro conjI impI unsigned_exact_fit unsigned_one_short data_exact_fit data_one_short
      poisoned_stop)

theorem exact_fit_and_one_short_witness:
  "unat (CBOR_UNSIGNED_SIZE 3) + unat (3 :: size_t) < 2 ^ 64
   \<and> CBOR_BYTE_STRING_SIZE 3 = 4
   \<and> cbor_stop_writer (cbor_prepend_data (cbor_init_writer blank_writer 100 4) [10, 11, 12] 3)
       = Some 100
   \<and> cbor_stop_writer (cbor_prepend_data (cbor_init_writer blank_writer 100 3) [10, 11, 12] 3)
       = None
   \<and> CBOR_UNSIGNED_SIZE 123 = 2
   \<and> cbor_stop_writer (cbor_prepend_unsigned (cbor_init_writer blank_writer 100 2) 123) = Some 100
   \<and> cbor_stop_writer (cbor_prepend_unsigned (cbor_init_writer blank_writer 100 1) 123) = None"
proof -
  have h: "unat (CBOR_UNSIGNED_SIZE 3) + unat (3 :: size_t) < 2 ^ 64"
    and e: "CBOR_BYTE_STRING_SIZE 3 = 4" "CBOR_UNSIGNED_SIZE 123 = 2"
    by (simp_all add: CBOR_BYTE_STRING_SIZE_def size_defs)
  from exact_fit_and_one_short [of blank_writer 100 123 3 "[10, 11, 12]"] h
  show ?thesis by (simp add: e)
qed

text \<open>
  Claim C5 (round trip of byte strings). For every byte sequence \<open>d\<close> of length \<open>n\<close> and
  every buffer that holds the header and the \<open>n\<close> bytes, \<^verbatim>\<open>cbor_prepend_data(d, n)\<close>
  followed by \<^verbatim>\<open>cbor_stop_writer\<close> yields the start of the output, on which
  \<^verbatim>\<open>cbor_read_data\<close> returns a non-\<^verbatim>\<open>NULL\<close> pointer (just behind the header), reports
  the size \<open>n\<close> and leaves the reader at the end of the output; the \<open>n\<close> bytes at the
  returned pointer are \<open>d\<close>.
\<close>

theorem byte_string_roundtrip:
  assumes len: "length d = unat n"
    and room: "unat (CBOR_UNSIGNED_SIZE n) + unat n \<le> unat buf_size"
  shows
    "let w = cbor_prepend_data (cbor_init_writer s buf buf_size) d n;
         header = unat (CBOR_UNSIGNED_SIZE n);
         start = buf + unat buf_size - (header + unat n)
     in cbor_stop_writer w = Some start
        \<and> cbor_read_data (reader_on (mem w) start (of_nat (header + unat n))) sz
            = (Some (start + header), n, reader_on (mem w) (buf + unat buf_size) 0)
        \<and> map (mem w) [start + header ..< start + header + unat n] = d"
proof -
  define s0 where "s0 = cbor_init_writer s buf buf_size"
  define s1 where "s1 = prepend_object s0 d n"
  define w where "w = cbor_prepend_data s0 d n"
  define H where "H = unat (CBOR_UNSIGNED_SIZE n)"
  define B where "B = unat buf_size"
  define N where "N = unat n"
  define q where "q = buf + B - (H + N)"
  have HN: "H + N \<le> B" using room by (simp add: H_def N_def B_def)
  have Hpos: "0 < H" by (simp add: H_def unsigned_size_pos)
  have w0: "within buf s0" unfolding s0_def by (rule within_init)
  have r0: "unat n \<le> unat (buffer_size s0)"
    using HN by (simp add: s0_def init_fields N_def B_def)
  note o = prepend_object_within [OF w0 r0, of d, folded s1_def]
  have bs1: "unat (buffer_size s1) = B - N"
    by (simp add: o(2) s0_def init_fields B_def N_def)
  have r1: "unat (CBOR_UNSIGNED_SIZE n) \<le> unat (buffer_size s1)"
    using HN by (simp add: bs1 H_def)
  have q1: "q = buf + unat (buffer_size s1) - unat (CBOR_UNSIGNED_SIZE n)"
    using HN by (simp add: q_def bs1 H_def)
  note pw = prepend_unsigned_within [OF o(1) r1]
  have some: "buffer (prepend_unsigned s1 n) \<noteq> None" by (simp add: pw(3))
  have mw: "mem w = mem (or_major_type (prepend_unsigned s1 n) CBOR_MAJOR_TYPE_BYTE_STRING)"
    by (simp add: w_def cbor_prepend_data_def s1_def [symmetric] wrap_data_mem [OF some])
  define U :: size_t where "U = of_nat (H + N)"
  have used: "unat U = H + N"
  proof -
    have "H + N < 2 ^ 64" using HN unsigned_less [of buf_size, where ?'a = nat] by (simp add: B_def)
    then show ?thesis by (simp add: U_def unat_of_nat del: of_nat_add)
  qed
  have rn: "unat (CBOR_UNSIGNED_SIZE n) \<le> unat U"
    by (simp only: used) (simp add: H_def)
  note th = typed_header [OF o(1) r1 q1 mw major_type_bits(1,2,3) rn]
  have top: "nesting_depth w = CBOR_MAX_NESTING"
    by (simp add: w_def prepend_data_fields s0_def init_fields)
  have "buffer w = buffer (prepend_unsigned s1 n)"
    by (simp add: w_def prepend_data_fields s1_def)
  then have stop: "cbor_stop_writer w = Some q"
    by (simp add: stop_at_top [OF top] pw(3) q1)
  have rest: "U - CBOR_UNSIGNED_SIZE n = n"
    by (simp add: U_def H_def N_def)
  have rd: "cbor_read_unsigned (reader_on (mem w) q U) 0 =
      (if n < 24 then CBOR_SIZE_1 else uint (jump_byte n), n, reader_on (mem w) (q + H) n)"
    using th(1) [of 0] by (simp only: H_def [symmetric] rest)
  have str: "read_byte_or_text_string (reader_on (mem w) q U) sz =
      (Some (q + H), n, reader_on (mem w) (q + H + N) 0)"
    using read_string_success [OF rd size_class_not_none, of sz]
    by (simp add: reader_on_simps reader_on_update N_def)
  have whole: "q + H + N = buf + B" using HN by (simp add: q_def)
  have data: "cbor_read_data (reader_on (mem w) q U) sz =
      (Some (q + H), n, reader_on (mem w) (buf + B) 0)"
    by (simp add: cbor_read_data_def th(2) str whole)
  have payload: "map (mem w) [q + H ..< q + H + N] = d"
  proof (rule nth_equalityI)
    show "length (map (mem w) [q + H ..< q + H + N]) = length d"
      by (simp add: len N_def)
  next
    fix i
    assume "i < length (map (mem w) [q + H ..< q + H + N])"
    then have i: "i < N" by simp
    have base: "q + H = buf + unat (buffer_size s1)" using HN by (simp add: q_def bs1)
    have "mem w (q + H + i) = mem s1 (q + H + i)"
      by (rule th(3)) (simp add: base)
    also have "\<dots> = d ! i"
    proof -
      have "buf + unat (buffer_size s0) - unat n = q + H"
        using HN by (simp add: s0_def init_fields q_def B_def N_def)
      moreover have "min (unat n) (length d) = N" by (simp add: len N_def)
      ultimately show ?thesis using i by (simp add: o(4))
    qed
    finally show "map (mem w) [q + H ..< q + H + N] ! i = d ! i"
      using i by simp
  qed
  show ?thesis
    unfolding Let_def
    using stop data payload
    by (simp only: w_def s0_def U_def H_def B_def N_def q_def simp_thms)
qed


theorem byte_string_roundtrip_witness:
  "length [10, 11, 12 :: uint8_t] = unat (3 :: size_t)
   \<and> unat (CBOR_UNSIGNED_SIZE 3) + unat (3 :: size_t) \<le> unat (16 :: size_t)
   \<and> cbor_stop_writer (cbor_prepend_data (cbor_init_writer blank_writer 100 16) [10, 11, 12] 3)
       = Some 112
   \<and> fst (cbor_read_data
        (reader_on (mem (cbor_prepend_data (cbor_init_writer blank_writer 100 16) [10, 11, 12] 3))
           112 4) 0) = Some 113
   \<and> fst (snd (cbor_read_data
        (reader_on (mem (cbor_prepend_data (cbor_init_writer blank_writer 100 16) [10, 11, 12] 3))
           112 4) 0)) = 3
   \<and> map (mem (cbor_prepend_data (cbor_init_writer blank_writer 100 16) [10, 11, 12] 3))
         [113 ..< 116] = [10, 11, 12]"
proof -
  have h1: "length [10, 11, 12 :: uint8_t] = unat (3 :: size_t)" by simp
  have u: "unat (CBOR_UNSIGNED_SIZE 3) = 1" by (simp add: size_defs)
  have h2: "unat (CBOR_UNSIGNED_SIZE 3) + unat (3 :: size_t) \<le> unat (16 :: size_t)"
    by (simp add: u)
  from byte_string_roundtrip [OF h1 h2, of blank_writer 100 0] h1 h2
  show ?thesis by (simp add: Let_def u)
qed

text \<open>
  Claim C7 (map parity). When a container is open and its counter is odd, \<^verbatim>\<open>cbor_wrap_map\<close>
  returns \<^verbatim>\<open>NULL\<close> and poisons the writer, and \<^verbatim>\<open>cbor_stop_writer\<close> returns \<^verbatim>\<open>NULL\<close>
  then and after any further calls. When the counter is \<open>2 * k\<close> and the buffer has room
  for the header, \<^verbatim>\<open>cbor_wrap_map\<close> returns the new cursor, where a header of major type
  map with argument \<open>k\<close> stands: \<^verbatim>\<open>cbor_read_next\<close> reports \<^verbatim>\<open>CBOR_MAJOR_TYPE_MAP\<close> and
  \<^verbatim>\<open>cbor_read_map\<close> returns \<open>k\<close>.
\<close>

theorem map_parity:
  "(nesting_depth s \<noteq> CBOR_MAX_NESTING \<and> odd (unat (objects s (unat (nesting_depth s)))) \<longrightarrow>
      fst (cbor_wrap_map s) = None
      \<and> buffer (snd (cbor_wrap_map s)) = None \<and> buffer_size (snd (cbor_wrap_map s)) = 0
      \<and> cbor_stop_writer (snd (cbor_wrap_map s)) = None
      \<and> cbor_stop_writer (calls cs (snd (cbor_wrap_map s))) = None)
   \<and> (within buf s \<and> nesting_depth s \<noteq> CBOR_MAX_NESTING
        \<and> unat (objects s (unat (nesting_depth s))) = 2 * k
        \<and> unat (CBOR_UNSIGNED_SIZE (of_nat k)) \<le> unat (buffer_size s) \<longrightarrow>
      fst (cbor_wrap_map s)
        = Some (buf + unat (buffer_size s) - unat (CBOR_UNSIGNED_SIZE (of_nat k)))
      \<and> fst (cbor_read_next
            (reader_on (mem (snd (cbor_wrap_map s)))
               (buf + unat (buffer_size s) - unat (CBOR_UNSIGNED_SIZE (of_nat k)))
               (CBOR_UNSIGNED_SIZE (of_nat k)))) = CBOR_MAJOR_TYPE_MAP
      \<and> unat (fst (cbor_read_map
            (reader_on (mem (snd (cbor_wrap_map s)))
               (buf + unat (buffer_size s) - unat (CBOR_UNSIGNED_SIZE (of_nat k)))
               (CBOR_UNSIGNED_SIZE (of_nat k))))) = k)"
proof (intro conjI impI; (elim conjE)?)
  assume odd: "odd (unat (objects s (unat (nesting_depth s))))"
  note eq = wrap_map_odd [OF odd]
  have p: "poisoned (snd (cbor_wrap_map s))" by (simp add: eq poisoned_def)
  show "fst (cbor_wrap_map s) = None" by (simp add: eq)
  show "buffer (snd (cbor_wrap_map s)) = None" by (simp add: eq)
  show "buffer_size (snd (cbor_wrap_map s)) = 0" by (simp add: eq)
  show "cbor_stop_writer (snd (cbor_wrap_map s)) = None" by (rule poisoned_stop [OF p])
  show "cbor_stop_writer (calls cs (snd (cbor_wrap_map s))) = None"
    by (rule poisoned_stop [OF poisoned_calls [OF p]])
next
  assume w: "within buf s" and d: "nesting_depth s \<noteq> CBOR_MAX_NESTING"
    and c: "unat (objects s (unat (nesting_depth s))) = 2 * k"
    and room: "unat (CBOR_UNSIGNED_SIZE (of_nat k)) \<le> unat (buffer_size s)"
  note r = wrap_map_room [OF w d c refl room refl order_refl]
  have "2 * k < 2 ^ 64"
    using unsigned_less [of "objects s (unat (nesting_depth s))", where ?'a = nat]
    by (simp add: c)
  then have k: "unat (of_nat k :: size_t) = k" by (simp add: unat_of_nat)
  show "fst (cbor_wrap_map s)
        = Some (buf + unat (buffer_size s) - unat (CBOR_UNSIGNED_SIZE (of_nat k)))"
    by (rule r(1))
  show "fst (cbor_read_next
            (reader_on (mem (snd (cbor_wrap_map s)))
               (buf + unat (buffer_size s) - unat (CBOR_UNSIGNED_SIZE (of_nat k)))
               (CBOR_UNSIGNED_SIZE (of_nat k)))) = CBOR_MAJOR_TYPE_MAP"
    by (simp add: r(4))
  show "unat (fst (cbor_read_map
            (reader_on (mem (snd (cbor_wrap_map s)))
               (buf + unat (buffer_size s) - unat (CBOR_UNSIGNED_SIZE (of_nat k)))
               (CBOR_UNSIGNED_SIZE (of_nat k))))) = k"
    by (simp add: r(5) k)
qed

theorem map_parity_witness:
  "nesting_depth full_writer \<noteq> CBOR_MAX_NESTING
   \<and> odd (unat (objects full_writer (unat (nesting_depth full_writer))))
   \<and> fst (cbor_wrap_map full_writer) = None
   \<and> cbor_stop_writer (calls [Prepend_null, Wrap_map] (snd (cbor_wrap_map full_writer))) = None
   \<and> within 100 open_map_writer
   \<and> nesting_depth open_map_writer \<noteq> CBOR_MAX_NESTING
   \<and> unat (objects open_map_writer (unat (nesting_depth open_map_writer))) = 2 * 2
   \<and> unat (CBOR_UNSIGNED_SIZE (of_nat 2)) \<le> unat (buffer_size open_map_writer)
   \<and> fst (cbor_wrap_map open_map_writer) = Some 109
   \<and> mem (snd (cbor_wrap_map open_map_writer)) 109 = 0xA2
   \<and> unat (fst (cbor_read_map (reader_on (mem (snd (cbor_wrap_map open_map_writer))) 109 1)))
       = 2"
proof -
  have h1: "nesting_depth full_writer \<noteq> CBOR_MAX_NESTING
      \<and> odd (unat (objects full_writer (unat (nesting_depth full_writer))))"
    by (simp add: full_writer_def CBOR_MAX_NESTING_def)
  have u: "unat (CBOR_UNSIGNED_SIZE 2) = 1" "CBOR_UNSIGNED_SIZE 2 = 1"
    by (simp_all add: size_defs)
  have h2: "within 100 open_map_writer \<and> nesting_depth open_map_writer \<noteq> CBOR_MAX_NESTING
      \<and> unat (objects open_map_writer (unat (nesting_depth open_map_writer))) = 2 * 2
      \<and> unat (CBOR_UNSIGNED_SIZE (of_nat 2)) \<le> unat (buffer_size open_map_writer)"
    by (simp add: u) (simp add: open_map_writer_def within_def CBOR_MAX_NESTING_def)
  note c1 = map_parity [where s = full_writer and cs = "[Prepend_null, Wrap_map]", THEN conjunct1, THEN mp, OF h1]
  note c2 = map_parity [where s = open_map_writer and buf = 100 and k = 2, THEN conjunct2, THEN mp, OF h2]
  have byte: "mem (snd (cbor_wrap_map open_map_writer)) 109 = 0xA2"
    by (simp add: open_map_writer_def cbor_wrap_map_def prepend_unsigned_def Let_def size_defs
        close_container_def or_major_type_def CBOR_MAX_NESTING_def CBOR_MAJOR_TYPE_MAP_def)
  have rd: "unat (fst (cbor_read_map (reader_on (mem (snd (cbor_wrap_map open_map_writer))) 109 1)))
      = 2"
    using c2 by (simp add: u open_map_writer_def)
  have st: "fst (cbor_wrap_map open_map_writer) = Some 109"
    using c2 by (simp add: u open_map_writer_def)
  from h1 h2 c1 st byte rd show ?thesis by simp
qed

text \<open>
  Claim C2 (item count of containers). A session \<^verbatim>\<open>cbor_open_array\<close>, then \<open>k\<close> prepend
  calls that each lay down an item, then \<^verbatim>\<open>cbor_wrap_array\<close>, in a buffer with room for
  the items and the header, ends with \<^verbatim>\<open>cbor_stop_writer\<close> returning the start of the
  output, on which \<^verbatim>\<open>cbor_read_array\<close> returns \<open>k\<close>. With \<^verbatim>\<open>cbor_open_map\<close>, \<open>2 * k\<close>
  such calls and \<^verbatim>\<open>cbor_wrap_map\<close>, \<^verbatim>\<open>cbor_read_map\<close> returns \<open>k\<close>.
\<close>

theorem container_item_count:
  "(list_all item_call cs
      \<and> session_size cs + unat (CBOR_UNSIGNED_SIZE (of_nat (length cs))) \<le> unat buf_size \<longrightarrow>
      (let w = calls (Open_array # cs @ [Wrap_array]) (cbor_init_writer s buf buf_size);
           used = session_size cs + unat (CBOR_UNSIGNED_SIZE (of_nat (length cs)));
           start = buf + unat buf_size - used
       in cbor_stop_writer w = Some start
          \<and> unat (fst (cbor_read_array (reader_on (mem w) start (of_nat used)))) = length cs))
   \<and> (list_all item_call cs \<and> length cs = 2 * k
      \<and> session_size cs + unat (CBOR_UNSIGNED_SIZE (of_nat k)) \<le> unat buf_size \<longrightarrow>
      (let w = calls (Open_map # cs @ [Wrap_map]) (cbor_init_writer s buf buf_size);
           used = session_size cs + unat (CBOR_UNSIGNED_SIZE (of_nat k));
           start = buf + unat buf_size - used
       in cbor_stop_writer w = Some start
          \<and> unat (fst (cbor_read_map (reader_on (mem w) start (of_nat used)))) = k))"
  using array_session [where cs = cs and buf_size = buf_size and s = s and buf = buf]
    map_session [where cs = cs and k = k and buf_size = buf_size and s = s and buf = buf]
  by blast


theorem container_item_count_witness:
  "list_all item_call [Prepend_unsigned 123, Prepend_data [10, 11, 12] 3]
   \<and> session_size [Prepend_unsigned 123, Prepend_data [10, 11, 12] 3]
        + unat (CBOR_UNSIGNED_SIZE 2) \<le> unat (28 :: size_t)
   \<and> cbor_stop_writer
        (calls [Open_array, Prepend_unsigned 123, Prepend_data [10, 11, 12] 3, Wrap_array]
           (cbor_init_writer blank_writer 100 28)) = Some 121
   \<and> unat (fst (cbor_read_array
        (reader_on (mem (calls [Open_array, Prepend_unsigned 123, Prepend_data [10, 11, 12] 3,
             Wrap_array] (cbor_init_writer blank_writer 100 28))) 121 7))) = 2
   \<and> list_all item_call [Prepend_bool 1, Prepend_unsigned 1]
   \<and> length [Prepend_bool 1, Prepend_unsigned 1] = 2 * 1
   \<and> session_size [Prepend_bool 1, Prepend_unsigned 1] + unat (CBOR_UNSIGNED_SIZE 1)
        \<le> unat (28 :: size_t)
   \<and> cbor_stop_writer
        (calls [Open_map, Prepend_bool 1, Prepend_unsigned 1, Wrap_map]
           (cbor_init_writer blank_writer 100 28)) = Some 125
   \<and> unat (fst (cbor_read_map
        (reader_on (mem (calls [Open_map, Prepend_bool 1, Prepend_unsigned 1, Wrap_map]
             (cbor_init_writer blank_writer 100 28))) 125 3))) = 1"
proof -
  let ?a = "[Prepend_unsigned 123, Prepend_data [10, 11, 12] 3]"
  let ?m = "[Prepend_bool 1, Prepend_unsigned 1]"
  have u: "unat (CBOR_UNSIGNED_SIZE 2) = 1" "unat (CBOR_UNSIGNED_SIZE 1) = 1"
    "unat (CBOR_UNSIGNED_SIZE 123) = 2" "unat (CBOR_UNSIGNED_SIZE 3) = 1"
    by (simp_all add: size_defs)
  have sa: "session_size ?a = 6" and sm: "session_size ?m = 2"
    by (simp_all add: session_size_def u)
  have h1: "list_all item_call ?a
      \<and> session_size ?a + unat (CBOR_UNSIGNED_SIZE (of_nat (length ?a))) \<le> unat (28 :: size_t)"
    by (simp add: sa u)
  have h2: "list_all item_call ?m \<and> length ?m = 2 * 1
      \<and> session_size ?m + unat (CBOR_UNSIGNED_SIZE (of_nat 1)) \<le> unat (28 :: size_t)"
    by (simp add: sm u)
  note c1 = container_item_count [where cs = ?a and buf_size = 28 and s = blank_writer
      and buf = 100, THEN conjunct1, THEN mp, OF h1]
  note c2 = container_item_count [where cs = ?m and k = 1 and buf_size = 28 and s = blank_writer
      and buf = 100, THEN conjunct2, THEN mp, OF h2]
  have a: "cbor_stop_writer (calls (Open_array # ?a @ [Wrap_array])
             (cbor_init_writer blank_writer 100 28)) = Some 121
      \<and> unat (fst (cbor_read_array (reader_on (mem (calls (Open_array # ?a @ [Wrap_array])
             (cbor_init_writer blank_writer 100 28))) 121 7))) = 2"
    using c1 by (simp add: Let_def sa u del: calls.simps call.simps)
  have m: "cbor_stop_writer (calls (Open_map # ?m @ [Wrap_map])
             (cbor_init_writer blank_writer 100 28)) = Some 125
      \<and> unat (fst (cbor_read_map (reader_on (mem (calls (Open_map # ?m @ [Wrap_map])
             (cbor_init_writer blank_writer 100 28))) 125 3))) = 1"
    using c2 by (simp add: Let_def sm u del: calls.simps call.simps)
  from h1 h2 a m show ?thesis by (simp add: u del: calls.simps call.simps)
qed

end
